theory Spec2Isabelle
  imports Complex_Main "HOL-Library.Product_Lexorder" "HOL-Library.Multiset"
begin

section \<open>Data model of \<^verbatim>\<open>sockeye/inference.py\<close>\<close>

text \<open>
  Errors are values. Every \<^verbatim>\<open>raise\<close> of the Python source that the modelled
  functions can reach is one constructor of \<open>error\<close>; a function that can raise returns
  \<open>error + 'a\<close> with \<open>Inl\<close> carrying the exception.
\<close>

datatype error = IndexError | ValueError | KeyError | TypeError | AttributeError | ScorerFailure

text \<open>\<^verbatim>\<open>SentenceId = Union[int, str]\<close>.\<close>

datatype sentence_id = IntId int | StrId string

type_synonym tokens = "string list"

text \<open>
  A restrict lexicon is an object that the source compares by identity
  (\<^verbatim>\<open>is not\<close>); it is represented by the number that identifies the object.
\<close>

type_synonym lexicon = nat

text \<open>
  \<^verbatim>\<open>TranslatorInput\<close>. The subclass \<^verbatim>\<open>BadTranslatorInput\<close> adds no field; the field
  \<open>is_bad\<close> records what \<^verbatim>\<open>isinstance(x, BadTranslatorInput)\<close> answers. Optional
  fields are options, with \<open>None\<close> for Python's \<^verbatim>\<open>None\<close>. The pass-through dictionary is an
  association list of keys and rendered values.
\<close>

record translator_input =
  is_bad :: bool
  sentence_id :: sentence_id
  tokens :: tokens
  factors :: "tokens list option"
  source_prefix_tokens :: "tokens option"
  source_prefix_factors :: "tokens list option"
  target_prefix_tokens :: "tokens option"
  target_prefix_factors :: "tokens list option"
  target_segment_durations :: "int list option"
  use_target_prefix_all_chunks :: "bool option"
  keep_target_prefix_key :: "bool option"
  restrict_lexicon :: "lexicon option"
  constraints :: "tokens list option"
  avoid_list :: "tokens list option"
  pass_through_dict :: "(string \<times> string) list option"

text \<open>Python's truth value of an \<^verbatim>\<open>Optional[bool]\<close>: \<^verbatim>\<open>None\<close> is false.\<close>

definition truthy :: "bool option \<Rightarrow> bool" where
  "truthy b = (case b of None \<Rightarrow> False | Some v \<Rightarrow> v)"

text \<open>The slice \<^verbatim>\<open>xs[i:j]\<close> for \<open>0 \<le> i\<close> and \<open>0 \<le> j\<close>.\<close>

definition py_slice :: "nat \<Rightarrow> nat \<Rightarrow> 'a list \<Rightarrow> 'a list" where
  "py_slice i j xs = take (j - i) (drop i xs)"

text \<open>\<^verbatim>\<open>range(0, n, step)\<close> for a positive step.\<close>

definition py_range_step :: "nat \<Rightarrow> nat \<Rightarrow> nat list" where
  "py_range_step n step = map (\<lambda>k. k * step) [0..<(n + step - 1) div step]"

definition get_source_prefix_tokens :: "translator_input \<Rightarrow> tokens" where
  "get_source_prefix_tokens self =
     (case source_prefix_tokens self of Some ts \<Rightarrow> ts | None \<Rightarrow> [])"

definition num_source_prefix_tokens :: "translator_input \<Rightarrow> nat" where
  "num_source_prefix_tokens self = length (get_source_prefix_tokens self)"

text \<open>\<^verbatim>\<open>__len__\<close>: the tokens and the source prefix.\<close>

definition len_input :: "translator_input \<Rightarrow> nat" where
  "len_input self = length (tokens self) + num_source_prefix_tokens self"

definition get_target_prefix_tokens :: "translator_input \<Rightarrow> tokens" where
  "get_target_prefix_tokens self =
     (case target_prefix_tokens self of Some ts \<Rightarrow> ts | None \<Rightarrow> [])"

definition num_target_prefix_tokens :: "translator_input \<Rightarrow> nat" where
  "num_target_prefix_tokens self = length (get_target_prefix_tokens self)"

subsection \<open>\<^verbatim>\<open>TranslatorInput.chunks\<close> and \<^verbatim>\<open>with_eos\<close>\<close>

text \<open>
  The body of the loop of \<^verbatim>\<open>chunks\<close> for one pair \<open>(chunk_id, i)\<close>. The source computes
  a local \<^verbatim>\<open>target_prefix_factors\<close> guarded like the prefix tokens and then passes
  \<^verbatim>\<open>self.target_prefix_factors\<close> to the constructor; the model passes what the
  constructor receives. The yielded object is a plain \<^verbatim>\<open>TranslatorInput\<close>.
\<close>

definition chunk_at :: "translator_input \<Rightarrow> nat \<Rightarrow> nat \<Rightarrow> nat \<Rightarrow> translator_input" where
  "chunk_at self chunk_size chunk_id i =
     \<lparr> is_bad = False,
       sentence_id = sentence_id self,
       tokens = py_slice i (i + chunk_size) (tokens self),
       factors = (case factors self of
                    Some fs \<Rightarrow> Some (map (py_slice i (i + chunk_size)) fs)
                  | None \<Rightarrow> None),
       source_prefix_tokens = source_prefix_tokens self,
       source_prefix_factors = source_prefix_factors self,
       target_prefix_tokens =
         (if chunk_id = 0 \<or> truthy (use_target_prefix_all_chunks self)
          then target_prefix_tokens self else None),
       target_prefix_factors = target_prefix_factors self,
       target_segment_durations = target_segment_durations self,
       use_target_prefix_all_chunks = use_target_prefix_all_chunks self,
       keep_target_prefix_key = keep_target_prefix_key self,
       restrict_lexicon = restrict_lexicon self,
       constraints = (if chunk_id = 0 then constraints self else None),
       avoid_list = avoid_list self,
       pass_through_dict =
         (if chunk_id = 0 \<and> pass_through_dict self \<noteq> None
          then pass_through_dict self else None) \<rparr>"

text \<open>
  The generator, run to its end, as the list of what it yields. The bound of the range is
  \<^verbatim>\<open>len(self) - self.num_source_prefix_tokens\<close>. \<^verbatim>\<open>range\<close> raises on a zero step
  and is empty for a negative one.
\<close>

definition chunks :: "translator_input \<Rightarrow> int \<Rightarrow> error + translator_input list" where
  "chunks self chunk_size =
     (if chunk_size = 0 then Inl ValueError
      else if chunk_size < 0 then Inr []
      else Inr (map (\<lambda>(chunk_id, i). chunk_at self (nat chunk_size) chunk_id i)
                  (enumerate 0 (py_range_step (len_input self - num_source_prefix_tokens self)
                                              (nat chunk_size)))))"

text \<open>The end-of-sentence symbol \<^verbatim>\<open>C.EOS_SYMBOL\<close> is a parameter.\<close>

definition with_eos :: "string \<Rightarrow> translator_input \<Rightarrow> translator_input" where
  "with_eos eos_symbol self =
     \<lparr> is_bad = False,
       sentence_id = sentence_id self,
       tokens = tokens self @ [eos_symbol],
       factors = (case factors self of
                    Some fs \<Rightarrow> Some (map (\<lambda>factor. factor @ [eos_symbol]) fs)
                  | None \<Rightarrow> None),
       source_prefix_tokens = source_prefix_tokens self,
       source_prefix_factors = source_prefix_factors self,
       target_prefix_tokens = target_prefix_tokens self,
       target_prefix_factors = target_prefix_factors self,
       target_segment_durations = target_segment_durations self,
       use_target_prefix_all_chunks = use_target_prefix_all_chunks self,
       keep_target_prefix_key = keep_target_prefix_key self,
       restrict_lexicon = restrict_lexicon self,
       constraints = constraints self,
       avoid_list = avoid_list self,
       pass_through_dict = pass_through_dict self \<rparr>"

subsection \<open>Translations and results\<close>

text \<open>
  Scores are floating-point numbers. The model idealises them as the reals extended by the
  value \<^verbatim>\<open>-np.inf\<close> of the empty translation; rounding is not modelled.
\<close>

datatype pyfloat = NegInf | Fin real

fun fadd :: "pyfloat \<Rightarrow> pyfloat \<Rightarrow> pyfloat" where
  "fadd (Fin a) (Fin b) = Fin (a + b)"
| "fadd _ _ = NegInf"

text \<open>\<^verbatim>\<open>TokenIds = List[List[int]]\<close>: one row of factor ids per target position.\<close>

type_synonym token_ids = "int list list"

record nbest_translations =
  target_ids_list :: "token_ids list"
  scores_list :: "pyfloat list list"

record translation =
  target_ids :: token_ids
  scores :: "pyfloat list"
  nbest_translations :: "nbest_translations option"
  estimated_reference_length :: "real option"

definition empty_translation :: "bool \<Rightarrow> translation" where
  "empty_translation add_nbest =
     \<lparr> target_ids = [],
       scores = [NegInf],
       nbest_translations =
         (if add_nbest then Some \<lparr> target_ids_list = [], scores_list = [] \<rparr> else None),
       estimated_reference_length = None \<rparr>"

record indexed_translator_input =
  input_idx :: nat
  chunk_idx :: nat
  translator_input :: translator_input

record indexed_translation =
  t_input_idx :: nat
  t_chunk_idx :: nat
  translation :: translation

text \<open>\<^verbatim>\<open>TranslatorOutput\<close>; the fields carry the prefix \<open>o_\<close>.\<close>

record translator_output =
  o_sentence_id :: sentence_id
  o_translation :: string
  o_tokens :: tokens
  o_score :: pyfloat
  o_pass_through_dict :: "(string \<times> string) list option"
  o_nbest_translations :: "string list option"
  o_nbest_tokens :: "tokens list option"
  o_nbest_scores :: "pyfloat list list option"
  o_factor_translations :: "string list option"
  o_factor_tokens :: "tokens list option"
  o_factor_scores :: "pyfloat list option"
  o_nbest_factor_translations :: "string list list option"
  o_nbest_factor_tokens :: "tokens list list option"

text \<open>
  The candidate scorer is a collaborator outside this module: its length normalisation
  (\<^verbatim>\<open>scorer(score, length, reference_length)\<close>) and the inverse \<^verbatim>\<open>scorer.unnormalize\<close>
  are parameters.
\<close>

record scorer =
  scorer_call :: "pyfloat \<Rightarrow> nat \<Rightarrow> real option \<Rightarrow> pyfloat"
  scorer_unnormalize :: "pyfloat \<Rightarrow> nat \<Rightarrow> real option \<Rightarrow> pyfloat"

text \<open>
  \<^verbatim>\<open>Translator.restrict_lexicon\<close> is \<^verbatim>\<open>None\<close>, one lexicon, or a dictionary of
  named lexicons.
\<close>

datatype lexicon_config =
  NoLexicon | SingleLexicon lexicon | LexiconDict "(string \<times> lexicon) list"

text \<open>
  The fields of \<^verbatim>\<open>Translator\<close> that the modelled methods read. \<open>max_input_length\<close> is
  the property of that name. \<open>eos_symbol\<close> and \<open>token_separator\<close> are the constants
  \<^verbatim>\<open>C.EOS_SYMBOL\<close> and \<^verbatim>\<open>C.TOKEN_SEPARATOR\<close>. The parameter \<open>translate_np\<close> stands for
  what happens to a batch between the choice of its lexicon and the list of its
  translations: the numeric arrays built from the inputs of the batch, the search of the
  external scorer and the decoding of the search result. It is given the chosen lexicon and
  the inputs of the batch, and it may fail.
\<close>

record translator =
  max_batch_size :: nat
  max_input_length :: int
  nbest_size :: nat
  translator_restrict_lexicon :: lexicon_config
  stop_ids :: "int set"
  strip_ids :: "int set"
  vocab_targets_inv :: "(int \<rightharpoonup> string) list"
  eos_symbol :: string
  token_separator :: string
  translator_scorer :: scorer
  translate_np :: "lexicon option \<Rightarrow> translator_input list \<Rightarrow> error + translation list"

text \<open>A list comprehension whose body can raise stops at the first exception.\<close>

primrec map_err :: "('a \<Rightarrow> error + 'b) \<Rightarrow> 'a list \<Rightarrow> error + 'b list" where
  "map_err f [] = Inr []"
| "map_err f (x # xs) =
     (case f x of
        Inl e \<Rightarrow> Inl e
      | Inr y \<Rightarrow> (case map_err f xs of Inl e \<Rightarrow> Inl e | Inr ys \<Rightarrow> Inr (y # ys)))"

text \<open>\<^verbatim>\<open>zip(*rows)\<close>: the columns of the rows, as many as the shortest row has.\<close>

definition zip_star :: "'a list list \<Rightarrow> 'a list list" where
  "zip_star rows =
     (if rows = [] then []
      else map (\<lambda>k. map (\<lambda>row. row ! k) rows) [0..<min_list (map length rows)])"

subsection \<open>Reassembling the translations of chunks\<close>

definition reduce_nbest_translations :: "translation list \<Rightarrow> error + translation" where
  "reduce_nbest_translations nbest_translations_list =
     (case nbest_translations_list of
        [] \<Rightarrow> Inl IndexError
      | best_translation # _ \<Rightarrow>
          Inr \<lparr> target_ids = target_ids best_translation,
                scores = scores best_translation,
                nbest_translations =
                  Some \<lparr> target_ids_list = map target_ids nbest_translations_list,
                         scores_list = map scores nbest_translations_list \<rparr>,
                estimated_reference_length = estimated_reference_length best_translation \<rparr>)"

definition expand_nbest_translation :: "translation \<Rightarrow> error + translation list" where
  "expand_nbest_translation t =
     (case nbest_translations t of
        None \<Rightarrow> Inl AttributeError
      | Some nb \<Rightarrow>
          Inr (map (\<lambda>(ids, score).
                      \<lparr> target_ids = ids, scores = score, nbest_translations = None,
                        estimated_reference_length = estimated_reference_length t \<rparr>)
                   (zip (target_ids_list nb) (scores_list nb))))"

definition remove_target_prefix_tokens :: "token_ids \<Rightarrow> nat \<Rightarrow> token_ids" where
  "remove_target_prefix_tokens ids num_prefix_tokens =
     (let starting_idx = min (length ids) num_prefix_tokens in drop starting_idx ids)"

text \<open>
  \<^verbatim>\<open>np.add\<close> of two one-dimensional arrays: equal lengths add elementwise, an array of
  length one is broadcast, other lengths raise.
\<close>

definition np_add :: "pyfloat list \<Rightarrow> pyfloat list \<Rightarrow> error + pyfloat list" where
  "np_add xs ys =
     (if length xs = length ys then Inr (map (\<lambda>(x, y). fadd x y) (zip xs ys))
      else if length xs = 1 then Inr (map (fadd (hd xs)) ys)
      else if length ys = 1 then Inr (map (\<lambda>x. fadd x (hd ys)) xs)
      else Inl ValueError)"

text \<open>
  The state of the loop of \<^verbatim>\<open>_concat_translations\<close>: the target ids collected so far, the
  sum of the estimated reference lengths and the array of accumulated scores.
\<close>

record concat_state =
  cs_target_ids :: token_ids
  cs_estimated_reference_length :: "real option"
  cs_scores :: "pyfloat list"

text \<open>
  One iteration of that loop, for the translation at index \<open>idx\<close> of \<open>n\<close>. On every
  translation but the last the source reads \<^verbatim>\<open>translation.target_ids[-1][0]\<close>, which
  raises when the target ids are empty or their last row is; the unpacking
  \<^verbatim>\<open>score, *factor_scores = translation.scores\<close> raises on an empty list of scores.
\<close>

definition concat_step ::
  "int set \<Rightarrow> scorer \<Rightarrow> nat \<Rightarrow> concat_state \<Rightarrow> nat \<times> translation \<Rightarrow> error + concat_state" where
  "concat_step stop scr n st it =
     (let idx = fst it; t = snd it in
      case (if idx = n - 1 then Inr (cs_target_ids st @ target_ids t)
            else if target_ids t = [] then Inl IndexError
            else if last (target_ids t) = [] then Inl IndexError
            else if hd (last (target_ids t)) \<in> stop
                 then Inr (cs_target_ids st @ butlast (target_ids t))
                 else Inr (cs_target_ids st @ target_ids t)) of
        Inl e \<Rightarrow> Inl e
      | Inr ids \<Rightarrow>
          (let erl = (case estimated_reference_length t of
                        None \<Rightarrow> cs_estimated_reference_length st
                      | Some r \<Rightarrow> (case cs_estimated_reference_length st of
                                     None \<Rightarrow> Some r
                                   | Some acc \<Rightarrow> Some (acc + r)))
           in case scores t of
                [] \<Rightarrow> Inl ValueError
              | score # factor_scores \<Rightarrow>
                  (let raw_score = scorer_unnormalize scr score (length (target_ids t))
                                     (estimated_reference_length t)
                   in case np_add (cs_scores st) (raw_score # factor_scores) of
                        Inl e \<Rightarrow> Inl e
                      | Inr sc \<Rightarrow>
                          Inr \<lparr> cs_target_ids = ids,
                                cs_estimated_reference_length = erl,
                                cs_scores = sc \<rparr>)))"

fun concat_loop ::
  "int set \<Rightarrow> scorer \<Rightarrow> nat \<Rightarrow> concat_state \<Rightarrow> (nat \<times> translation) list \<Rightarrow> error + concat_state"
where
  "concat_loop stop scr n st [] = Inr st"
| "concat_loop stop scr n st (it # its) =
     (case concat_step stop scr n st it of
        Inl e \<Rightarrow> Inl e
      | Inr st' \<Rightarrow> concat_loop stop scr n st' its)"

definition concat_translations :: "int set \<Rightarrow> scorer \<Rightarrow> translation list \<Rightarrow> error + translation" where
  "concat_translations stop scr translations =
     (if length translations = 1 then Inr (translations ! 0)
      else case translations of
        [] \<Rightarrow> Inl IndexError
      | first # _ \<Rightarrow>
         (case concat_loop stop scr (length translations)
                 \<lparr> cs_target_ids = [], cs_estimated_reference_length = None,
                   cs_scores = replicate (length (scores first)) (Fin 0) \<rparr>
                 (enumerate 0 translations) of
            Inl e \<Rightarrow> Inl e
          | Inr st \<Rightarrow>
             (case cs_scores st of
                [] \<Rightarrow> Inl IndexError
              | s0 # srest \<Rightarrow>
                  Inr \<lparr> target_ids = cs_target_ids st,
                        scores = scorer_call scr s0 (length (cs_target_ids st))
                                   (cs_estimated_reference_length st) # srest,
                        nbest_translations = None,
                        estimated_reference_length = cs_estimated_reference_length st \<rparr>)))"

definition concat_nbest_translations ::
  "int set \<Rightarrow> scorer \<Rightarrow> translation list \<Rightarrow> error + translation" where
  "concat_nbest_translations stop scr translations =
     (case map_err expand_nbest_translation translations of
        Inl e \<Rightarrow> Inl e
      | Inr expanded_translations \<Rightarrow>
          (case map_err (concat_translations stop scr) (zip_star expanded_translations) of
             Inl e \<Rightarrow> Inl e
           | Inr concatenated_translations \<Rightarrow>
               reduce_nbest_translations concatenated_translations))"

subsection \<open>Formatting a translation as a result\<close>

text \<open>\<^verbatim>\<open>sep.join(words)\<close>.\<close>

fun join :: "string \<Rightarrow> string list \<Rightarrow> string" where
  "join sep [] = []"
| "join sep [w] = w"
| "join sep (w # v # ws) = w @ sep @ join sep (v # ws)"

text \<open>
  \<^verbatim>\<open>_get_translation_tokens_and_factors\<close>. The generator of the pruned rows is consumed
  whole by \<^verbatim>\<open>zip(*...)\<close>, reading element 0 of every row; then every column is looked up
  in the reverse vocabulary of its factor. The two unpackings at the end need one
  vocabulary at least.
\<close>

definition lookup_factor :: "translator \<Rightarrow> nat \<times> int list \<Rightarrow> error + (tokens \<times> string)" where
  "lookup_factor self col =
     (let factor_index = fst col; factor_sequence = snd col in
      if factor_index < length (vocab_targets_inv self)
      then (case map_err (\<lambda>target_id.
                            case (vocab_targets_inv self ! factor_index) target_id of
                              None \<Rightarrow> Inl KeyError
                            | Some w \<Rightarrow> Inr w) factor_sequence of
              Inl e \<Rightarrow> Inl e
            | Inr target_tokens \<Rightarrow> Inr (target_tokens, join (token_separator self) target_tokens))
      else Inl IndexError)"

definition get_translation_tokens_and_factors ::
  "translator \<Rightarrow> token_ids \<Rightarrow> error + (tokens \<times> string \<times> tokens list \<times> string list)" where
  "get_translation_tokens_and_factors self ids =
     (case map_err (\<lambda>row. case row of
                             [] \<Rightarrow> Inl IndexError
                           | t0 # _ \<Rightarrow> Inr (row, t0 \<notin> strip_ids self)) ids of
        Inl e \<Rightarrow> Inl e
      | Inr marked \<Rightarrow>
          (let pruned_target_ids = map fst (filter snd marked) in
           case map_err (lookup_factor self) (enumerate 0 (zip_star pruned_target_ids)) of
             Inl e \<Rightarrow> Inl e
           | Inr found \<Rightarrow>
               (let n = length (vocab_targets_inv self);
                    all_target_tokens = (if found = [] then replicate n [] else map fst found);
                    all_target_strings = (if found = [] then replicate n [] else map snd found)
                in case all_target_tokens of
                     [] \<Rightarrow> Inl ValueError
                   | toks # factor_tokens \<Rightarrow>
                       (case all_target_strings of
                          [] \<Rightarrow> Inl ValueError
                        | str # factor_translations \<Rightarrow>
                            Inr (toks, str, factor_tokens, factor_translations)))))"

definition make_result ::
  "translator \<Rightarrow> translator_input \<Rightarrow> translation \<Rightarrow> error + translator_output" where
  "make_result self trans_input t =
     (case get_translation_tokens_and_factors self (target_ids t) of
        Inl e \<Rightarrow> Inl e
      | Inr (primary_tokens, primary_translation, factor_tokens, factor_translations) \<Rightarrow>
          (case (case nbest_translations t of
                   None \<Rightarrow> Inr None
                 | Some nb \<Rightarrow>
                     (case map_err (get_translation_tokens_and_factors self)
                             (target_ids_list nb) of
                        Inl e \<Rightarrow> Inl e
                      | Inr rows \<Rightarrow> Inr (Some (rows, scores_list nb)))) of
             Inl e \<Rightarrow> Inl e
           | Inr nbest \<Rightarrow>
               (case scores t of
                  [] \<Rightarrow> Inl IndexError
                | s0 # factor_scores \<Rightarrow>
                    Inr \<lparr> o_sentence_id = sentence_id trans_input,
                          o_translation = primary_translation,
                          o_tokens = primary_tokens,
                          o_score = s0,
                          o_pass_through_dict = pass_through_dict trans_input,
                          o_nbest_translations =
                            map_option (\<lambda>(rows, sc). map (\<lambda>(tk, str, ftk, fstr). str) rows) nbest,
                          o_nbest_tokens =
                            map_option (\<lambda>(rows, sc). map (\<lambda>(tk, str, ftk, fstr). tk) rows) nbest,
                          o_nbest_scores = map_option (\<lambda>(rows, sc). sc) nbest,
                          o_factor_translations = Some factor_translations,
                          o_factor_tokens = Some factor_tokens,
                          o_factor_scores = Some factor_scores,
                          o_nbest_factor_translations =
                            map_option (\<lambda>(rows, sc). map (\<lambda>(tk, str, ftk, fstr). fstr) rows) nbest,
                          o_nbest_factor_tokens =
                            map_option (\<lambda>(rows, sc). map (\<lambda>(tk, str, ftk, fstr). ftk) rows) nbest
                        \<rparr>)))"

subsection \<open>The lexicon of a batch in \<^verbatim>\<open>_get_inference_input\<close>\<close>

text \<open>
  The loop over the inputs of a batch keeps one variable \<^verbatim>\<open>restrict_lexicon\<close>, first
  \<^verbatim>\<open>None\<close>. The state of the model is that variable and the sentence ids for which
  \<^verbatim>\<open>logger.warning\<close> was called. The numeric arrays assembled by the same loop belong to
  the parameter \<open>translate_np\<close>.
\<close>

definition lexicon_step ::
  "lexicon_config \<Rightarrow> lexicon option \<times> sentence_id list \<Rightarrow> translator_input
     \<Rightarrow> lexicon option \<times> sentence_id list" where
  "lexicon_step cfg st trans_input =
     (case restrict_lexicon trans_input of
        Some l \<Rightarrow>
          (Some l,
           if fst st \<noteq> None \<and> fst st \<noteq> Some l
           then snd st @ [sentence_id trans_input] else snd st)
      | None \<Rightarrow>
          (case cfg of
             NoLexicon \<Rightarrow> st
           | LexiconDict d \<Rightarrow> (None, snd st)
           | SingleLexicon s \<Rightarrow> (Some s, snd st)))"

definition batch_restrict_lexicon ::
  "translator \<Rightarrow> translator_input list \<Rightarrow> lexicon option \<times> sentence_id list" where
  "batch_restrict_lexicon self trans_inputs =
     foldl (lexicon_step (translator_restrict_lexicon self)) (None, []) trans_inputs"

subsection \<open>\<^verbatim>\<open>Translator.translate\<close>\<close>

text \<open>
  One iteration of the first loop: what it appends to \<^verbatim>\<open>translated_chunks\<close> and to
  \<^verbatim>\<open>input_chunks\<close> for the input at index \<open>trans_input_idx\<close>.
\<close>

definition split_input ::
  "translator \<Rightarrow> nat \<times> translator_input
     \<Rightarrow> error + (indexed_translation list \<times> indexed_translator_input list)" where
  "split_input self it =
     (let trans_input_idx = fst it; trans_input = snd it;
          empty = \<lparr> t_input_idx = trans_input_idx, t_chunk_idx = 0,
                    translation = empty_translation (nbest_size self > 1) \<rparr>
      in if is_bad trans_input then Inr ([empty], [])
         else if length (tokens trans_input) = 0 then Inr ([empty], [])
         else
           (let max_input_length_for_chunking =
                  max_input_length self - int (num_source_prefix_tokens trans_input)
            in if max_input_length_for_chunking \<le> 0 then Inr ([empty], [])
               else if int (length (tokens trans_input)) > max_input_length_for_chunking
               then (case chunks trans_input max_input_length_for_chunking of
                       Inl e \<Rightarrow> Inl e
                     | Inr cs \<Rightarrow>
                         Inr ([], map (\<lambda>(chunk_idx, chunk_input).
                                         \<lparr> input_idx = trans_input_idx, chunk_idx = chunk_idx,
                                           translator_input = chunk_input \<rparr>)
                                      (enumerate 0 (map (with_eos (eos_symbol self)) cs))))
               else Inr ([], [\<lparr> input_idx = trans_input_idx, chunk_idx = 0,
                                translator_input = with_eos (eos_symbol self) trans_input \<rparr>])))"

definition split_inputs ::
  "translator \<Rightarrow> translator_input list
     \<Rightarrow> error + (indexed_translation list \<times> indexed_translator_input list)" where
  "split_inputs self trans_inputs =
     (case map_err (split_input self) (enumerate 0 trans_inputs) of
        Inl e \<Rightarrow> Inl e
      | Inr parts \<Rightarrow> Inr (concat (map fst parts), concat (map snd parts)))"

text \<open>
  \<^verbatim>\<open>sorted(input_chunks, key=..., reverse=True)\<close>: longest first, chunks of equal length in
  their order of arrival.
\<close>

definition sort_input_chunks :: "indexed_translator_input list \<Rightarrow> indexed_translator_input list" where
  "sort_input_chunks input_chunks =
     sort_key (\<lambda>chunk. - int (length (tokens (translator_input chunk)))) input_chunks"

text \<open>
  Modelled from the spec: \<^verbatim>\<open>utils.grouper\<close> is not part of the source at hand. The
  spec groups the sorted chunks into consecutive, non-overlapping groups of the batch
  size, the last group keeping its natural, possibly smaller, size. No group is formed
  from no chunks or for the size 0.
\<close>

function grouper :: "'a list \<Rightarrow> nat \<Rightarrow> 'a list list" where
  "grouper xs n =
     (if n = 0 \<or> xs = [] then [] else take n xs # grouper (drop n xs) n)"
  by pat_completeness auto
termination
  by (relation "measure (\<lambda>(xs, n). length xs)") auto

definition translate_batch_size :: "translator \<Rightarrow> bool \<Rightarrow> indexed_translator_input list \<Rightarrow> nat" where
  "translate_batch_size self fill_up_batches input_chunks =
     (if fill_up_batches then max_batch_size self
      else min (length input_chunks) (max_batch_size self))"

text \<open>The batches in the order in which the second loop meets them, before any padding.\<close>

definition batches ::
  "translator \<Rightarrow> bool \<Rightarrow> indexed_translator_input list \<Rightarrow> indexed_translator_input list list" where
  "batches self fill_up_batches input_chunks =
     grouper (sort_input_chunks input_chunks)
       (translate_batch_size self fill_up_batches input_chunks)"

text \<open>
  The body of the second loop for one batch: padding with the first chunk, translation,
  removal of the filler translations (\<^verbatim>\<open>batch_translations[:-rest]\<close>) and pairing of the
  chunks with the translations by \<^verbatim>\<open>zip\<close>.
\<close>

definition translate_batch ::
  "translator \<Rightarrow> bool \<Rightarrow> nat \<Rightarrow> indexed_translator_input list
     \<Rightarrow> error + indexed_translation list" where
  "translate_batch self fill_up_batches batch_size batch0 =
     (let rest = int batch_size - int (length batch0) in
      case (if fill_up_batches \<and> rest > 0
            then (case batch0 of
                    [] \<Rightarrow> Inl IndexError
                  | b # _ \<Rightarrow> Inr (batch0 @ replicate (nat rest) b))
            else Inr batch0) of
        Inl e \<Rightarrow> Inl e
      | Inr batch \<Rightarrow>
          (let translator_inputs = map translator_input batch in
           case translate_np self (fst (batch_restrict_lexicon self translator_inputs))
                  translator_inputs of
             Inl e \<Rightarrow> Inl e
           | Inr translations \<Rightarrow>
               (let batch_translations =
                      (if fill_up_batches \<and> rest > 0
                       then take (length translations - nat rest) translations
                       else translations)
                in Inr (map (\<lambda>(chunk, t).
                               \<lparr> t_input_idx = input_idx chunk, t_chunk_idx = chunk_idx chunk,
                                 translation = t \<rparr>)
                            (zip batch batch_translations)))))"

text \<open>
  \<^verbatim>\<open>sorted(translated_chunks)\<close> orders by \<open>(input_idx, chunk_idx)\<close>. Two entries that
  agree on both would be ordered by their translations, which have no order: the model
  raises for such a list.
\<close>

definition translated_key :: "indexed_translation \<Rightarrow> nat \<times> nat" where
  "translated_key tc = (t_input_idx tc, t_chunk_idx tc)"

definition sort_translated_chunks :: "indexed_translation list \<Rightarrow> error + indexed_translation list" where
  "sort_translated_chunks translated_chunks =
     (if distinct (map translated_key translated_chunks)
      then Inr (sort_key translated_key translated_chunks)
      else Inl TypeError)"

text \<open>\<^verbatim>\<open>itertools.groupby\<close>: maximal runs of neighbours with the same key.\<close>

function groupby :: "('a \<Rightarrow> 'k) \<Rightarrow> 'a list \<Rightarrow> ('k \<times> 'a list) list" where
  "groupby key [] = []"
| "groupby key (x # xs) =
     (key x, x # takeWhile (\<lambda>y. key y = key x) xs)
       # groupby key (dropWhile (\<lambda>y. key y = key x) xs)"
  by pat_completeness auto
termination
  by (relation "measure (\<lambda>(key, xs). length xs)") (auto simp: length_dropWhile_le less_Suc_eq_le)

text \<open>
  The body of the last loop for one input and its group of translated chunks: removal of
  the target prefix where asked for, concatenation of several chunks, formatting.
\<close>

definition translator_concat_translations :: "translator \<Rightarrow> translation list \<Rightarrow> error + translation" where
  "translator_concat_translations self =
     (if nbest_size self > 1
      then concat_nbest_translations (stop_ids self) (translator_scorer self)
      else concat_translations (stop_ids self) (translator_scorer self))"

definition strip_target_prefix :: "nat \<Rightarrow> translation \<Rightarrow> translation" where
  "strip_target_prefix n t = t \<lparr> target_ids := remove_target_prefix_tokens (target_ids t) n \<rparr>"

definition assemble_result ::
  "translator \<Rightarrow> translator_input \<times> nat \<times> indexed_translation list \<Rightarrow> error + translator_output"
where
  "assemble_result self pair =
     (let trans_input = fst pair;
          translations_for_input_idx = snd (snd pair);
          n = num_target_prefix_tokens trans_input;
          remove = (n > 0 \<and> \<not> truthy (keep_target_prefix_key trans_input))
      in if length translations_for_input_idx = 1
         then (let t = translation (translations_for_input_idx ! 0)
               in make_result self trans_input (if remove then strip_target_prefix n t else t))
         else
           (let translations_to_concat = map translation translations_for_input_idx;
                stripped =
                  (if remove
                   then map (\<lambda>(i, t). if i = 0 \<or> truthy (use_target_prefix_all_chunks trans_input)
                                       then strip_target_prefix n t else t)
                          (enumerate 0 translations_to_concat)
                   else translations_to_concat)
            in case translator_concat_translations self stripped of
                 Inl e \<Rightarrow> Inl e
               | Inr t \<Rightarrow> make_result self trans_input t))"

definition translate ::
  "translator \<Rightarrow> translator_input list \<Rightarrow> bool \<Rightarrow> error + translator_output list" where
  "translate self trans_inputs fill_up_batches =
     (case split_inputs self trans_inputs of
        Inl e \<Rightarrow> Inl e
      | Inr (bad_or_empty, input_chunks) \<Rightarrow>
          (let batch_size = translate_batch_size self fill_up_batches input_chunks in
           case map_err (translate_batch self fill_up_batches batch_size)
                  (batches self fill_up_batches input_chunks) of
             Inl e \<Rightarrow> Inl e
           | Inr translated \<Rightarrow>
               (case sort_translated_chunks (bad_or_empty @ concat translated) of
                  Inl e \<Rightarrow> Inl e
                | Inr translated_chunks \<Rightarrow>
                    map_err (assemble_result self)
                      (zip trans_inputs (groupby t_input_idx translated_chunks)))))"

subsection \<open>\<^verbatim>\<open>Translator._get_best_word_indices_for_kth_hypotheses\<close>\<close>

text \<open>
  A two-dimensional integer array: its rows and the length \<^verbatim>\<open>shape[1]\<close> of each row.
\<close>

record array2 =
  shape1 :: nat
  rows :: "int list list"

text \<open>An index into an axis of length \<open>n\<close>; numpy counts a negative index from the end.\<close>

definition np_index :: "nat \<Rightarrow> int \<Rightarrow> error + nat" where
  "np_index n i =
     (if 0 \<le> i \<and> i < int n then Inr (nat i)
      else if - int n \<le> i \<and> i < 0 then Inr (nat (i + int n))
      else Inl IndexError)"

text \<open>\<^verbatim>\<open>a[idx, c]\<close> for an array \<open>idx\<close> of row indices and one column index.\<close>

definition take_column :: "array2 \<Rightarrow> int list \<Rightarrow> int \<Rightarrow> error + int list" where
  "take_column a idx c =
     (case np_index (shape1 a) c of
        Inl e \<Rightarrow> Inl e
      | Inr col \<Rightarrow>
          map_err (\<lambda>i. case np_index (length (rows a)) i of
                         Inl e \<Rightarrow> Inl e
                       | Inr r \<Rightarrow> Inr (rows a ! r ! col)) idx)"

text \<open>\<^verbatim>\<open>result[:, step] = pointer\<close>.\<close>

definition set_column :: "int list list \<Rightarrow> nat \<Rightarrow> int list \<Rightarrow> int list list" where
  "set_column result step pointer = map (\<lambda>(row, v). row[step := v]) (zip result pointer)"

text \<open>
  The loop \<^verbatim>\<open>for step in range(num_steps - 2, -1, -1)\<close>; \<open>follow a n\<close> runs the steps
  \<open>n - 1\<close> down to \<open>0\<close>.
\<close>

fun follow :: "array2 \<Rightarrow> nat \<Rightarrow> int list \<Rightarrow> int list list \<Rightarrow> error + int list list" where
  "follow a 0 pointer result = Inr result"
| "follow a (Suc step) pointer result =
     (case take_column a pointer (int step) of
        Inl e \<Rightarrow> Inl e
      | Inr pointer' \<Rightarrow> follow a step pointer' (set_column result step pointer))"

text \<open>\<^verbatim>\<open>np.zeros\<close> raises for the negative dimension \<^verbatim>\<open>num_steps - 1\<close> of an array without columns.\<close>

definition get_best_word_indices_for_kth_hypotheses ::
  "int list \<Rightarrow> array2 \<Rightarrow> error + int list list" where
  "get_best_word_indices_for_kth_hypotheses ks all_hyp_indices =
     (let batch_size = length ks; num_steps = shape1 all_hyp_indices in
      if num_steps = 0 then Inl ValueError
      else
        (let result = replicate batch_size (replicate (num_steps - 1) 0) in
         case take_column all_hyp_indices ks (- 1) of
           Inl e \<Rightarrow> Inl e
         | Inr pointer \<Rightarrow> follow all_hyp_indices (num_steps - 1) pointer result))"

text \<open>
  The slots of one hypothesis in the order of the steps: the recorded row of the result,
  then the slot of the requested rank at the final step, from which the walk starts.
\<close>

definition slot_walk :: "int list list \<Rightarrow> int list \<Rightarrow> nat \<Rightarrow> int list" where
  "slot_walk result ks b = result ! b @ [ks ! b]"

section \<open>Notions used in the statements\<close>

text \<open>The secondary factor \<open>k\<close> of a chunk, empty where the chunk has no such factor.\<close>

definition factor_of_chunk :: "translator_input \<Rightarrow> nat \<Rightarrow> tokens" where
  "factor_of_chunk c k =
     (case factors c of
        Some cf \<Rightarrow> (if k < length cf then cf ! k else [])
      | None \<Rightarrow> [])"

text \<open>
  The request of five tokens with one secondary factor, a target prefix of one token and
  one target prefix factor; its flag \<^verbatim>\<open>use_target_prefix_all_chunks\<close> is the argument.
\<close>

definition request_abcde :: "bool option \<Rightarrow> translator_input" where
  "request_abcde flag =
     \<lparr> is_bad = False, sentence_id = IntId 1,
       tokens = [''a'', ''b'', ''c'', ''d'', ''e''],
       factors = Some [[''A'', ''B'', ''C'', ''D'', ''E'']],
       source_prefix_tokens = None, source_prefix_factors = None,
       target_prefix_tokens = Some [''x''], target_prefix_factors = Some [[''X'']],
       target_segment_durations = None,
       use_target_prefix_all_chunks = flag, keep_target_prefix_key = Some True,
       restrict_lexicon = None, constraints = None, avoid_list = None,
       pass_through_dict = None \<rparr>"

text \<open>
  A well-formed backpointer array: every row has \<^verbatim>\<open>shape[1]\<close> entries and every entry
  is the index of a row. Valid slots are indices of rows.
\<close>

definition wf_backpointers :: "array2 \<Rightarrow> bool" where
  "wf_backpointers a =
     (\<forall>r \<in> set (rows a). length r = shape1 a
         \<and> (\<forall>e \<in> set r. 0 \<le> e \<and> e < int (length (rows a))))"

definition valid_slots :: "array2 \<Rightarrow> int list \<Rightarrow> bool" where
  "valid_slots a p = (\<forall>k \<in> set p. 0 \<le> k \<and> k < int (length (rows a)))"

text \<open>A backpointer array of three slots and four steps.\<close>

definition backpointers_3x4 :: array2 where
  "backpointers_3x4 = \<lparr> shape1 = 4, rows = [[0, 1, 1, 1], [0, 0, 2, 0], [0, 2, 0, 2]] \<rparr>"

text \<open>
  What the claim about the lexicon of a batch names: the last lexicon that an input of
  the batch names, \<open>None\<close> where no input names one.
\<close>

definition last_named_lexicon :: "translator_input list \<Rightarrow> lexicon option" where
  "last_named_lexicon trans_inputs =
     (let named = filter (\<lambda>l. l \<noteq> None) (map restrict_lexicon trans_inputs)
      in if named = [] then None else last named)"

text \<open>A well-formed request without factors, prefixes or constraints.\<close>

definition plain_input :: "int \<Rightarrow> tokens \<Rightarrow> lexicon option \<Rightarrow> translator_input" where
  "plain_input n toks lexi =
     \<lparr> is_bad = False, sentence_id = IntId n, tokens = toks, factors = None,
       source_prefix_tokens = None, source_prefix_factors = None,
       target_prefix_tokens = None, target_prefix_factors = None,
       target_segment_durations = None,
       use_target_prefix_all_chunks = Some True, keep_target_prefix_key = Some True,
       restrict_lexicon = lexi, constraints = None, avoid_list = None,
       pass_through_dict = None \<rparr>"

text \<open>
  A translator for the concrete instances below. Its scorer leaves scores as they are. Its
  \<open>translate_np\<close> translates every input of a batch to one word and the end-of-sentence id
  \<open>3\<close>; the word is \<open>10\<close> without a lexicon and \<open>11 + l\<close> under the lexicon \<open>l\<close>.
\<close>

definition demo_scorer :: scorer where
  "demo_scorer = \<lparr> scorer_call = (\<lambda>s n r. s), scorer_unnormalize = (\<lambda>s n r. s) \<rparr>"

definition demo_translate_np :: "lexicon option \<Rightarrow> translator_input list \<Rightarrow> error + translation list" where
  "demo_translate_np lexi batch =
     Inr (map (\<lambda>inp. \<lparr> target_ids = [[case lexi of None \<Rightarrow> 10 | Some l \<Rightarrow> 11 + int l], [3]],
                         scores = [Fin 1], nbest_translations = None,
                         estimated_reference_length = None \<rparr>) batch)"

definition demo_translator :: "lexicon_config \<Rightarrow> nat \<Rightarrow> int \<Rightarrow> translator" where
  "demo_translator cfg bs mil =
     \<lparr> max_batch_size = bs, max_input_length = mil, nbest_size = 1,
       translator_restrict_lexicon = cfg, stop_ids = {3, 0}, strip_ids = {3, 0},
       vocab_targets_inv = [map_of [(3, ''</s>''), (10, ''x''), (11, ''y''), (12, ''z''), (13, ''w'')]],
       eos_symbol = ''</s>'', token_separator = '' '',
       translator_scorer = demo_scorer, translate_np = demo_translate_np \<rparr>"


text \<open>
  Conditions on a list of translations to concatenate: every row of target ids carries
  the id of the primary factor; every translation has scores, as many as the first one;
  every translation but the last has target ids.
\<close>

definition wf_token_ids :: "translation list \<Rightarrow> bool" where
  "wf_token_ids ts = (\<forall>t \<in> set ts. [] \<notin> set (target_ids t))"

definition wf_scores :: "translation list \<Rightarrow> bool" where
  "wf_scores ts = (\<forall>t \<in> set ts. scores t \<noteq> [] \<and> length (scores t) = length (scores (hd ts)))"

definition non_final_non_empty :: "translation list \<Rightarrow> bool" where
  "non_final_non_empty ts = (\<forall>i. i + 1 < length ts \<longrightarrow> target_ids (ts ! i) \<noteq> [])"

text \<open>The translation of one chunk, without n-best list and reference length.\<close>

definition chunk_translation :: "token_ids \<Rightarrow> pyfloat list \<Rightarrow> translation" where
  "chunk_translation ids sc =
     \<lparr> target_ids = ids, scores = sc, nbest_translations = None,
       estimated_reference_length = None \<rparr>"







section \<open>Notions used for \<^verbatim>\<open>translate\<close>\<close>

text \<open>
  The inputs that the first loop of \<^verbatim>\<open>translate\<close> answers with the empty translation,
  without a chunk: bad inputs, inputs without tokens, and inputs whose source prefix leaves
  no room for a token.
\<close>

definition bypasses :: "translator \<Rightarrow> translator_input \<Rightarrow> bool" where
  "bypasses self inp =
     (is_bad inp \<or> tokens inp = []
      \<or> max_input_length self - int (num_source_prefix_tokens inp) \<le> 0)"

text \<open>
  The chunks of an input that reaches a batch, each with the end-of-sentence symbol: the
  chunks of \<^verbatim>\<open>chunks\<close> for an over-length input, the input itself otherwise.
\<close>

definition chunk_inputs :: "translator \<Rightarrow> translator_input \<Rightarrow> translator_input list" where
  "chunk_inputs self inp =
     (let L = max_input_length self - int (num_source_prefix_tokens inp) in
      if int (length (tokens inp)) > L
      then map (\<lambda>k. with_eos (eos_symbol self) (chunk_at inp (nat L) k (k * nat L)))
             [0..<(length (tokens inp) + nat L - 1) div nat L]
      else [with_eos (eos_symbol self) inp])"

text \<open>
  The entry of \<^verbatim>\<open>translated_chunks\<close> for an input answered with the empty translation.
\<close>

definition empty_chunk :: "translator \<Rightarrow> nat \<Rightarrow> indexed_translation" where
  "empty_chunk self i =
     \<lparr> t_input_idx = i, t_chunk_idx = 0, translation = empty_translation (nbest_size self > 1) \<rparr>"

text \<open>
  The indexed chunks of the input at index \<open>i\<close>.
\<close>

definition indexed_chunks :: "translator \<Rightarrow> nat \<Rightarrow> translator_input \<Rightarrow> indexed_translator_input list" where
  "indexed_chunks self i inp =
     map (\<lambda>k. \<lparr> input_idx = i, chunk_idx = k, translator_input = chunk_inputs self inp ! k \<rparr>)
       [0..<length (chunk_inputs self inp)]"

text \<open>
  The two lists that the first loop of \<^verbatim>\<open>translate\<close> builds.
\<close>

definition bad_or_empty_of :: "translator \<Rightarrow> translator_input list \<Rightarrow> indexed_translation list" where
  "bad_or_empty_of self inputs =
     concat (map (\<lambda>i. if bypasses self (inputs ! i) then [empty_chunk self i] else [])
               [0..<length inputs])"

definition input_chunks_of :: "translator \<Rightarrow> translator_input list \<Rightarrow> indexed_translator_input list" where
  "input_chunks_of self inputs =
     concat (map (\<lambda>i. if bypasses self (inputs ! i) then [] else indexed_chunks self i (inputs ! i))
               [0..<length inputs])"


text \<open>
  The contract of the collaborator \<open>translate_np\<close>: for every batch that is not empty
  it returns as many translations as the batch has inputs.
\<close>

definition np_one_per_input :: "translator \<Rightarrow> bool" where
  "np_one_per_input self =
     (\<forall>lexi batch. batch \<noteq> [] \<longrightarrow>
        (\<exists>ts. translate_np self lexi batch = Inr ts \<and> length ts = length batch))"




text \<open>
  The inputs of the first two branches of the first loop of \<^verbatim>\<open>translate\<close>.
\<close>

definition bad_or_empty :: "translator_input \<Rightarrow> bool" where
  "bad_or_empty inp = (is_bad inp \<or> tokens inp = [])"


subsection \<open>Padding of the last batch\<close>

text \<open>
  A collaborator \<open>translate_np\<close> that translates every input of a batch on its own, from
  the lexicon of the batch and the input alone.
\<close>

definition np_itemwise :: "translator \<Rightarrow> (lexicon option \<Rightarrow> translator_input \<Rightarrow> translation) \<Rightarrow> bool" where
  "np_itemwise self decode =
     (\<forall>lexi batch. translate_np self lexi batch = Inr (map (decode lexi) batch))"

text \<open>The inputs of a call that all name the same lexicon, or all name none.\<close>

definition same_lexicon :: "translator_input list \<Rightarrow> bool" where
  "same_lexicon inputs =
     (\<forall>a \<in> set inputs. \<forall>b \<in> set inputs. restrict_lexicon a = restrict_lexicon b)"

text \<open>What \<open>demo_translate_np\<close> returns for one input of a batch.\<close>

definition demo_decode :: "lexicon option \<Rightarrow> translator_input \<Rightarrow> translation" where
  "demo_decode lexi inp =
     \<lparr> target_ids = [[case lexi of None \<Rightarrow> 10 | Some l \<Rightarrow> 11 + int l], [3]],
       scores = [Fin 1], nbest_translations = None, estimated_reference_length = None \<rparr>"

text \<open>
  A translator with batches of three chunks; two inputs that name different lexicons; two
  inputs that name the same lexicon; four chunks of one token each.
\<close>

definition padding_translator :: translator where
  "padding_translator = demo_translator NoLexicon 3 20"

definition padding_inputs :: "translator_input list" where
  "padding_inputs = [plain_input 0 [''u''] (Some 1), plain_input 1 [''v''] (Some 2)]"

definition agreeing_inputs :: "translator_input list" where
  "agreeing_inputs = [plain_input 0 [''u''] (Some 1), plain_input 1 [''v''] (Some 1)]"

definition padding_chunk :: "nat \<Rightarrow> indexed_translator_input" where
  "padding_chunk i =
     \<lparr> input_idx = i, chunk_idx = 0,
       translator_input = plain_input (int i) [''u'', ''</s>''] (Some 1) \<rparr>"


section \<open>Chunking\<close>

lemma concat_slices:
  "concat (map (\<lambda>k. py_slice (k * L) (k * L + L) xs) [0..<m]) = take (m * L) xs"
proof (induction m)
  case 0
  show ?case by simp
next
  case (Suc m)
  have "take (m * L) xs @ take L (drop (m * L) xs) = take (m * L + L) xs"
    by (simp add: take_add)
  with Suc show ?case by (simp add: py_slice_def add.commute)
qed

lemma ceil_cover:
  assumes "0 < L"
  shows "n \<le> ((n + L - 1) div L) * (L::nat)"
proof -
  have "(n + L - 1) mod L < L" using assms by simp
  moreover have "(n + L - 1) div L * L + (n + L - 1) mod L = n + L - 1" by simp
  ultimately show ?thesis using assms by linarith
qed

lemma map_enumerate_range:
  "map (\<lambda>(chunk_id, i). f chunk_id i) (enumerate 0 (map g [0..<m])) = map (\<lambda>k. f k (g k)) [0..<m]"
  by (simp add: enumerate_eq_zip map_zip_map2 zip_same_conv_map)

lemma chunks_eq:
  "0 < L \<Longrightarrow>
   chunks self L =
     Inr (map (\<lambda>k. chunk_at self (nat L) k (k * nat L))
            [0..<(length (tokens self) + nat L - 1) div nat L])"
  by (simp add: chunks_def py_range_step_def len_input_def map_enumerate_range)

lemma tokens_chunk_at: "tokens (chunk_at self L k i) = py_slice i (i + L) (tokens self)"
  by (simp add: chunk_at_def)

lemma factor_of_chunk_at:
  "factors self = Some fs \<Longrightarrow> j < length fs \<Longrightarrow>
   factor_of_chunk (chunk_at self L k i) j = py_slice i (i + L) (fs ! j)"
  by (simp add: chunk_at_def factor_of_chunk_def)

text \<open>
  Claim C2. For a chunk size \<open>L \<ge> 1\<close> and a request whose secondary factors are as long
  as its tokens (the invariant of a request), \<^verbatim>\<open>chunks(L)\<close> yields its chunks without
  raising; the tokens of the chunks, concatenated in chunk order, are the tokens of the
  request; every chunk has at most \<open>L\<close> tokens; and for every secondary factor the
  concatenation of that factor over the chunks is that factor of the request. The
  statement holds for every number of tokens, so for \<open>J \<ge> 1\<close>.
\<close>

theorem chunks_round_trip:
  assumes L: "1 \<le> L"
    and inv: "\<forall>fs. factors self = Some fs \<longrightarrow> (\<forall>f \<in> set fs. length f = length (tokens self))"
  shows "\<exists>cs. chunks self L = Inr cs
           \<and> concat (map tokens cs) = tokens self
           \<and> (\<forall>c \<in> set cs. int (length (tokens c)) \<le> L)
           \<and> (\<forall>fs. factors self = Some fs \<longrightarrow>
                 (\<forall>j < length fs. concat (map (\<lambda>c. factor_of_chunk c j) cs) = fs ! j))"
proof -
  define m where "m = (length (tokens self) + nat L - 1) div nat L"
  define cs where "cs = map (\<lambda>k. chunk_at self (nat L) k (k * nat L)) [0..<m]"
  have pos: "0 < nat L" using L by simp
  have cover: "length (tokens self) \<le> m * nat L"
    unfolding m_def by (rule ceil_cover [OF pos])
  have eq: "chunks self L = Inr cs"
    using L by (simp add: chunks_eq cs_def m_def)
  have toks: "concat (map tokens cs) = tokens self"
    using cover by (simp add: cs_def comp_def tokens_chunk_at concat_slices)
  have bound: "\<forall>c \<in> set cs. int (length (tokens c)) \<le> L"
    using L by (auto simp: cs_def tokens_chunk_at py_slice_def)
  have facs: "concat (map (\<lambda>c. factor_of_chunk c j) cs) = fs ! j"
    if "factors self = Some fs" "j < length fs" for fs j
  proof -
    have "length (fs ! j) = length (tokens self)"
      using inv that by simp
    then show ?thesis
      using cover that by (simp add: cs_def comp_def factor_of_chunk_at concat_slices)
  qed
  show ?thesis
    using eq toks bound facs by blast
qed

theorem chunks_round_trip_witness:
  "(1::int) \<le> 2
   \<and> concat (map tokens (projr (chunks (request_abcde (Some False)) 2)))
     = [''a'', ''b'', ''c'', ''d'', ''e'']
   \<and> concat (map (\<lambda>c. factor_of_chunk c 0) (projr (chunks (request_abcde (Some False)) 2)))
     = [''A'', ''B'', ''C'', ''D'', ''E'']"
  using chunks_round_trip [of 2 "request_abcde (Some False)"]
  by (auto simp: request_abcde_def)

text \<open>
  Claim C3. With the flag \<^verbatim>\<open>use_target_prefix_all_chunks\<close> unset, the request
  \<open>request_abcde\<close> is split by \<^verbatim>\<open>chunks(2)\<close> into three chunks. The chunks 1 and 2 have no
  target prefix tokens, and they do carry the target prefix factors of the request: the
  constructor is called with \<^verbatim>\<open>self.target_prefix_factors\<close>, not with the guarded local
  variable of the same name.
\<close>

theorem chunks_target_prefix_factors_on_later_chunks:
  "map_sum id (map (\<lambda>c. (target_prefix_tokens c, target_prefix_factors c)))
     (chunks (request_abcde (Some False)) 2)
   = Inr [(Some [''x''], Some [[''X'']]), (None, Some [[''X'']]), (None, Some [[''X'']])]"
  by code_simp

section \<open>Backpointer traceback\<close>

lemma map_err_Inr:
  assumes "\<And>x. x \<in> set xs \<Longrightarrow> f x = Inr (g x)"
  shows "map_err f xs = Inr (map g xs)"
  using assms by (induction xs) auto

lemma take_column_at:
  assumes "valid_slots a p" "np_index (shape1 a) c = Inr col"
  shows "take_column a p c = Inr (map (\<lambda>i. rows a ! nat i ! col) p)"
proof -
  have "map_err (\<lambda>i. case np_index (length (rows a)) i of Inl e \<Rightarrow> Inl e
                      | Inr r \<Rightarrow> Inr (rows a ! r ! col)) p
      = Inr (map (\<lambda>i. rows a ! nat i ! col) p)"
    using assms(1) by (intro map_err_Inr) (auto simp: valid_slots_def np_index_def)
  then show ?thesis using assms(2) by (simp add: take_column_def)
qed

lemma take_column_ok:
  assumes "valid_slots a p" "c < shape1 a"
  shows "take_column a p (int c) = Inr (map (\<lambda>i. rows a ! nat i ! c) p)"
  using assms by (intro take_column_at) (simp_all add: np_index_def)

lemma valid_slots_column:
  assumes "wf_backpointers a" "valid_slots a p" "c < shape1 a"
  shows "valid_slots a (map (\<lambda>i. rows a ! nat i ! c) p)"
  using assms unfolding wf_backpointers_def valid_slots_def
  by (auto simp: in_set_conv_nth) (metis nat_less_iff nth_mem)+

lemma set_column_nth:
  assumes "length pointer = length result" "b < length result"
  shows "set_column result step pointer ! b = (result ! b)[step := pointer ! b]"
  using assms by (simp add: set_column_def)

lemma follow_ok:
  assumes "wf_backpointers a" "valid_slots a pointer" "n \<le> shape1 a"
    and "length pointer = length result" "\<forall>row \<in> set result. length row = m" "n \<le> m"
  shows "\<exists>res. follow a n pointer result = Inr res \<and> length res = length result
           \<and> (\<forall>b < length result. length (res ! b) = m
                 \<and> (\<forall>t. n \<le> t \<and> t < m \<longrightarrow> res ! b ! t = result ! b ! t)
                 \<and> (0 < n \<longrightarrow> res ! b ! (n - 1) = pointer ! b)
                 \<and> (\<forall>t. t + 1 < n \<longrightarrow> res ! b ! t = rows a ! nat (res ! b ! (t + 1)) ! (t + 1)))"
  using assms
proof (induction n arbitrary: pointer result)
  case 0
  then show ?case by simp
next
  case (Suc n)
  define p' where "p' = map (\<lambda>i. rows a ! nat i ! n) pointer"
  define r' where "r' = set_column result n pointer"
  have lt: "n < shape1 a" using Suc.prems(3) by simp
  have tc: "take_column a pointer (int n) = Inr p'"
    unfolding p'_def by (rule take_column_ok [OF Suc.prems(2) lt])
  have vp: "valid_slots a p'"
    unfolding p'_def by (rule valid_slots_column [OF Suc.prems(1,2) lt])
  have len: "length p' = length r'"
    using Suc.prems(4) by (simp add: p'_def r'_def set_column_def)
  have lr: "length r' = length result"
    using Suc.prems(4) by (simp add: r'_def set_column_def)
  have rows': "\<forall>row \<in> set r'. length row = m"
    using Suc.prems(5) by (auto simp: r'_def set_column_def dest: set_zip_leftD)
  obtain res where res: "follow a n p' r' = Inr res" "length res = length r'"
    and props: "\<And>b. b < length r' \<Longrightarrow> length (res ! b) = m
                 \<and> (\<forall>t. n \<le> t \<and> t < m \<longrightarrow> res ! b ! t = r' ! b ! t)
                 \<and> (0 < n \<longrightarrow> res ! b ! (n - 1) = p' ! b)
                 \<and> (\<forall>t. t + 1 < n \<longrightarrow> res ! b ! t = rows a ! nat (res ! b ! (t + 1)) ! (t + 1))"
    using Suc.IH [OF Suc.prems(1) vp _ len rows'] lt Suc.prems(6) by auto
  have fol: "follow a (Suc n) pointer result = Inr res"
    using tc res(1) by (simp add: r'_def)
  have main: "length (res ! b) = m
                 \<and> (\<forall>t. Suc n \<le> t \<and> t < m \<longrightarrow> res ! b ! t = result ! b ! t)
                 \<and> (0 < Suc n \<longrightarrow> res ! b ! (Suc n - 1) = pointer ! b)
                 \<and> (\<forall>t. t + 1 < Suc n \<longrightarrow> res ! b ! t = rows a ! nat (res ! b ! (t + 1)) ! (t + 1))"
    if b: "b < length result" for b
  proof -
    have b': "b < length r'" using b lr by simp
    have rb: "r' ! b = (result ! b)[n := pointer ! b]"
      unfolding r'_def by (rule set_column_nth [OF Suc.prems(4) b])
    have lrow: "length (result ! b) = m" using Suc.prems(5) b by simp
    have nm: "n < m" using Suc.prems(6) by simp
    note P = props [OF b']
    have 1: "length (res ! b) = m" using P by simp
    have 2: "\<forall>t. Suc n \<le> t \<and> t < m \<longrightarrow> res ! b ! t = result ! b ! t"
      using P rb by auto
    have 3: "res ! b ! n = pointer ! b"
      using P rb nm lrow by auto
    have pb: "p' ! b = rows a ! nat (pointer ! b) ! n"
      using b Suc.prems(4) by (simp add: p'_def)
    have 4: "res ! b ! t = rows a ! nat (res ! b ! (t + 1)) ! (t + 1)" if "t + 1 < Suc n" for t
    proof (cases "t + 1 < n")
      case True
      then show ?thesis using P by simp
    next
      case False
      then have tn: "t + 1 = n" using that by simp
      then have "res ! b ! t = p' ! b" using P by auto
      then show ?thesis using pb 3 tn by simp
    qed
    show ?thesis using 1 2 3 4 by simp
  qed
  show ?case
  proof (intro exI [of _ res] conjI allI impI)
    show "follow a (Suc n) pointer result = Inr res" by (rule fol)
    show "length res = length result" using res(2) lr by simp
  qed (use main in simp_all)
qed


lemma take_column_last:
  assumes "valid_slots a p" "0 < shape1 a"
  shows "take_column a p (- 1) = Inr (map (\<lambda>i. rows a ! nat i ! (shape1 a - 1)) p)"
  using assms by (intro take_column_at) (simp_all add: np_index_def nat_diff_distrib')

text \<open>
  Claim C4. For a well-formed backpointer array of \<open>T \<ge> 1\<close> steps and valid requested
  slots, the traceback returns, for every hypothesis \<open>b\<close>, the \<open>T - 1\<close> slots of the
  steps \<open>0\<close> to \<open>T - 2\<close>. Together with the slot of the requested rank at the final step
  \<open>T - 1\<close>, where the walk starts, these are exactly \<open>T\<close> positions, and the slot at
  every position \<open>t\<close> before the last is the backpointer entry, at step \<open>t + 1\<close>, of the
  slot at position \<open>t + 1\<close>.
\<close>

theorem traceback_follows_backpointers:
  assumes wf: "wf_backpointers a" and ks: "valid_slots a ks" and T: "0 < shape1 a"
  shows "\<exists>res. get_best_word_indices_for_kth_hypotheses ks a = Inr res
           \<and> length res = length ks
           \<and> (\<forall>b < length ks.
                 length (res ! b) = shape1 a - 1
               \<and> length (slot_walk res ks b) = shape1 a
               \<and> (\<forall>t. t + 1 < shape1 a \<longrightarrow>
                     slot_walk res ks b ! t = rows a ! nat (slot_walk res ks b ! (t + 1)) ! (t + 1)))"
proof -
  define T where "T = shape1 a"
  define pointer where "pointer = map (\<lambda>i. rows a ! nat i ! (T - 1)) ks"
  define result :: "int list list" where "result = replicate (length ks) (replicate (T - 1) 0)"
  have tc: "take_column a ks (- 1) = Inr pointer"
    unfolding pointer_def T_def by (rule take_column_last [OF ks T])
  have vp: "valid_slots a pointer"
    unfolding pointer_def using valid_slots_column [OF wf ks, of "T - 1"] T by (simp add: T_def)
  have "\<exists>res. follow a (T - 1) pointer result = Inr res \<and> length res = length result
           \<and> (\<forall>b < length result. length (res ! b) = T - 1
                 \<and> (\<forall>t. T - 1 \<le> t \<and> t < T - 1 \<longrightarrow> res ! b ! t = result ! b ! t)
                 \<and> (0 < T - 1 \<longrightarrow> res ! b ! (T - 1 - 1) = pointer ! b)
                 \<and> (\<forall>t. t + 1 < T - 1 \<longrightarrow> res ! b ! t = rows a ! nat (res ! b ! (t + 1)) ! (t + 1)))"
    by (rule follow_ok [OF wf vp]) (simp_all add: T_def pointer_def result_def)
  then obtain res where fol: "follow a (T - 1) pointer result = Inr res"
    and lres: "length res = length ks"
    and props: "\<And>b. b < length ks \<Longrightarrow> length (res ! b) = T - 1
                 \<and> (0 < T - 1 \<longrightarrow> res ! b ! (T - 1 - 1) = pointer ! b)
                 \<and> (\<forall>t. t + 1 < T - 1 \<longrightarrow> res ! b ! t = rows a ! nat (res ! b ! (t + 1)) ! (t + 1))"
    by (auto simp: result_def)
  have run: "get_best_word_indices_for_kth_hypotheses ks a = Inr res"
    using T tc fol
    by (simp add: get_best_word_indices_for_kth_hypotheses_def Let_def T_def result_def)
  have walk: "length (res ! b) = T - 1 \<and> length (slot_walk res ks b) = T
               \<and> (\<forall>t. t + 1 < T \<longrightarrow>
                     slot_walk res ks b ! t = rows a ! nat (slot_walk res ks b ! (t + 1)) ! (t + 1))"
    if b: "b < length ks" for b
  proof -
    note P = props [OF b]
    have len: "length (res ! b) = T - 1" using P by simp
    have step: "slot_walk res ks b ! t = rows a ! nat (slot_walk res ks b ! (t + 1)) ! (t + 1)"
      if t: "t + 1 < T" for t
    proof (cases "t + 1 < T - 1")
      case True
      then show ?thesis using P len by (simp add: slot_walk_def nth_append)
    next
      case False
      then have eq: "t + 1 = T - 1" using t by simp
      then have "T - 1 - 1 = t" by simp
      then have "res ! b ! t = pointer ! b" using P eq by auto
      also have "\<dots> = rows a ! nat (ks ! b) ! (T - 1)" using b by (simp add: pointer_def)
      finally show ?thesis using len eq by (simp add: slot_walk_def nth_append)
    qed
    show ?thesis using len step T by (simp add: slot_walk_def T_def)
  qed
  show ?thesis
  proof (intro exI [of _ res] conjI allI impI)
    show "get_best_word_indices_for_kth_hypotheses ks a = Inr res" by (rule run)
    show "length res = length ks" by (rule lres)
  qed (use walk in \<open>simp_all add: T_def\<close>)
qed

theorem traceback_follows_backpointers_witness:
  "get_best_word_indices_for_kth_hypotheses [0, 1, 2] backpointers_3x4 = Inr [[2, 2, 1], [0, 1, 0], [1, 0, 2]]
   \<and> slot_walk [[2, 2, 1], [0, 1, 0], [1, 0, 2]] [0, 1, 2] 1 = [0, 1, 0, 1]
   \<and> wf_backpointers backpointers_3x4 \<and> valid_slots backpointers_3x4 [0, 1, 2] \<and> 0 < shape1 backpointers_3x4"
proof -
  have h: "wf_backpointers backpointers_3x4" "valid_slots backpointers_3x4 [0, 1, 2]" "0 < shape1 backpointers_3x4"
    by (simp_all add: wf_backpointers_def valid_slots_def backpointers_3x4_def)
  have c: "get_best_word_indices_for_kth_hypotheses [0, 1, 2] backpointers_3x4 = Inr [[2, 2, 1], [0, 1, 0], [1, 0, 2]]"
    by code_simp
  show ?thesis
    using traceback_follows_backpointers [OF h] c h by (simp add: slot_walk_def)
qed


section \<open>The lexicon of a batch\<close>

lemma last_named_snoc:
  "last_named_lexicon (xs @ [x]) =
     (case restrict_lexicon x of Some l \<Rightarrow> Some l | None \<Rightarrow> last_named_lexicon xs)"
  by (simp add: last_named_lexicon_def Let_def split: option.splits)

lemma batch_restrict_lexicon_snoc:
  "batch_restrict_lexicon self (xs @ [x]) =
     lexicon_step (translator_restrict_lexicon self) (batch_restrict_lexicon self xs) x"
  by (simp add: batch_restrict_lexicon_def)

lemma no_config_last_named:
  "translator_restrict_lexicon self = NoLexicon \<Longrightarrow>
   fst (batch_restrict_lexicon self xs) = last_named_lexicon xs"
proof (induction xs rule: rev_induct)
  case Nil
  then show ?case by (simp add: batch_restrict_lexicon_def last_named_lexicon_def)
next
  case (snoc x xs)
  then show ?case
    by (simp add: batch_restrict_lexicon_snoc last_named_snoc lexicon_step_def split: option.splits)
qed

lemma warnings_subset:
  "set (snd (batch_restrict_lexicon self xs)) \<subseteq> sentence_id ` set xs"
proof (induction xs rule: rev_induct)
  case Nil
  then show ?case by (simp add: batch_restrict_lexicon_def)
next
  case (snoc x xs)
  then show ?case
    by (auto simp: batch_restrict_lexicon_snoc lexicon_step_def split: option.splits lexicon_config.splits)
qed

lemma no_config_no_warning_agree:
  assumes "translator_restrict_lexicon self = NoLexicon"
    and "snd (batch_restrict_lexicon self xs) = []"
    and "x \<in> set xs" "restrict_lexicon x = Some l"
  shows "fst (batch_restrict_lexicon self xs) = Some l"
  using assms(2,3,4)
proof (induction xs rule: rev_induct)
  case Nil
  then show ?case by simp
next
  case (snoc y ys)
  show ?case
  proof (cases "restrict_lexicon y")
    case None
    then have "batch_restrict_lexicon self (ys @ [y]) = batch_restrict_lexicon self ys"
      using assms(1) by (simp add: batch_restrict_lexicon_snoc lexicon_step_def)
    moreover have "x \<in> set ys" using snoc.prems None by auto
    ultimately show ?thesis using snoc by simp
  next
    case (Some m)
    have step: "batch_restrict_lexicon self (ys @ [y]) =
       (Some m, if fst (batch_restrict_lexicon self ys) \<noteq> None \<and> fst (batch_restrict_lexicon self ys) \<noteq> Some m
                then snd (batch_restrict_lexicon self ys) @ [sentence_id y]
                else snd (batch_restrict_lexicon self ys))"
      using Some by (simp add: batch_restrict_lexicon_snoc lexicon_step_def)
    show ?thesis
    proof (cases "x \<in> set ys")
      case True
      have nw: "snd (batch_restrict_lexicon self ys) = []"
        using snoc.prems(1) step by (auto split: if_splits)
      have "fst (batch_restrict_lexicon self ys) = Some l"
        using snoc.IH [OF nw True snoc.prems(3)] .
      then show ?thesis using snoc.prems(1) step by (auto split: if_splits)
    next
      case False
      then have "x = y" using snoc.prems(2) by simp
      then show ?thesis using step Some snoc.prems(3) by simp
    qed
  qed
qed


text \<open>
  Claim C8, as stated, fails: with a dictionary of lexicons in the translator, a batch
  whose first input names the lexicon \<open>1\<close> and whose second input names none ends with
  no lexicon, not with the last lexicon named.
\<close>

theorem batch_lexicon_not_last_named:
  "fst (batch_restrict_lexicon (demo_translator (LexiconDict [(''a'', 1)]) 2 10)
         [plain_input 0 [''u''] (Some 1), plain_input 1 [''v''] None])
   \<noteq> last_named_lexicon [plain_input 0 [''u''] (Some 1), plain_input 1 [''v''] None]"
  by (simp add: batch_restrict_lexicon_def lexicon_step_def demo_translator_def plain_input_def
        last_named_lexicon_def)

text \<open>
  Claim C8, amended. One reference is chosen for the batch by one pass over its inputs. An
  input that names a lexicon sets the choice to it. An input that names none leaves the
  choice as it is when the translator has no lexicon, resets it to none when the translator
  has a dictionary of lexicons, and sets it to the translator's lexicon when it has a
  single one. So without a lexicon in the translator the choice is the last lexicon named
  by an input. Choosing never raises. No warning is logged before the first input; an
  input that names a lexicon adds one warning, with its sentence id, exactly when the
  choice so far is another lexicon, and an input that names none adds no warning. So the
  warnings name inputs of the batch, and without a lexicon in the translator a batch that
  ends without a warning has no two inputs naming different lexicons.
\<close>

theorem batch_lexicon_choice:
  "(translator_restrict_lexicon self = NoLexicon \<longrightarrow>
      fst (batch_restrict_lexicon self xs) = last_named_lexicon xs)
   \<and> (\<forall>l. restrict_lexicon x = Some l \<longrightarrow>
         fst (batch_restrict_lexicon self (xs @ [x])) = Some l)
   \<and> (restrict_lexicon x = None \<longrightarrow>
         fst (batch_restrict_lexicon self (xs @ [x])) =
           (case translator_restrict_lexicon self of
              NoLexicon \<Rightarrow> fst (batch_restrict_lexicon self xs)
            | LexiconDict d \<Rightarrow> None
            | SingleLexicon s \<Rightarrow> Some s))
   \<and> set (snd (batch_restrict_lexicon self xs)) \<subseteq> sentence_id ` set xs
   \<and> (translator_restrict_lexicon self = NoLexicon \<and> snd (batch_restrict_lexicon self xs) = [] \<longrightarrow>
         (\<forall>a \<in> set xs. \<forall>b \<in> set xs.
            restrict_lexicon a \<noteq> None \<and> restrict_lexicon b \<noteq> None \<longrightarrow>
            restrict_lexicon a = restrict_lexicon b))
   \<and> batch_restrict_lexicon self [] = (None, [])
   \<and> (\<forall>l. restrict_lexicon x = Some l \<longrightarrow>
         snd (batch_restrict_lexicon self (xs @ [x])) =
           (if fst (batch_restrict_lexicon self xs) \<noteq> None
               \<and> fst (batch_restrict_lexicon self xs) \<noteq> Some l
            then snd (batch_restrict_lexicon self xs) @ [sentence_id x]
            else snd (batch_restrict_lexicon self xs)))
   \<and> (restrict_lexicon x = None \<longrightarrow>
         snd (batch_restrict_lexicon self (xs @ [x])) = snd (batch_restrict_lexicon self xs))"
proof (intro conjI impI allI ballI)
  assume "translator_restrict_lexicon self = NoLexicon"
  then show "fst (batch_restrict_lexicon self xs) = last_named_lexicon xs"
    by (rule no_config_last_named)
next
  fix l assume "restrict_lexicon x = Some l"
  then show "fst (batch_restrict_lexicon self (xs @ [x])) = Some l"
    by (simp add: batch_restrict_lexicon_snoc lexicon_step_def)
next
  assume "restrict_lexicon x = None"
  then show "fst (batch_restrict_lexicon self (xs @ [x])) =
           (case translator_restrict_lexicon self of
              NoLexicon \<Rightarrow> fst (batch_restrict_lexicon self xs)
            | LexiconDict d \<Rightarrow> None
            | SingleLexicon s \<Rightarrow> Some s)"
    by (simp add: batch_restrict_lexicon_snoc lexicon_step_def split: lexicon_config.splits)
next
  show "set (snd (batch_restrict_lexicon self xs)) \<subseteq> sentence_id ` set xs"
    by (rule warnings_subset)
next
  fix a b
  assume h: "translator_restrict_lexicon self = NoLexicon \<and> snd (batch_restrict_lexicon self xs) = []"
    and a: "a \<in> set xs" and b: "b \<in> set xs"
    and n: "restrict_lexicon a \<noteq> None \<and> restrict_lexicon b \<noteq> None"
  obtain la lb where la: "restrict_lexicon a = Some la" and lb: "restrict_lexicon b = Some lb"
    using n by auto
  have "fst (batch_restrict_lexicon self xs) = Some la"
    using no_config_no_warning_agree [OF _ _ a la] h by simp
  moreover have "fst (batch_restrict_lexicon self xs) = Some lb"
    using no_config_no_warning_agree [OF _ _ b lb] h by simp
  ultimately show "restrict_lexicon a = restrict_lexicon b"
    using la lb by simp
next
  show "batch_restrict_lexicon self [] = (None, [])"
    by (simp add: batch_restrict_lexicon_def)
next
  fix l assume "restrict_lexicon x = Some l"
  then show "snd (batch_restrict_lexicon self (xs @ [x])) =
           (if fst (batch_restrict_lexicon self xs) \<noteq> None
               \<and> fst (batch_restrict_lexicon self xs) \<noteq> Some l
            then snd (batch_restrict_lexicon self xs) @ [sentence_id x]
            else snd (batch_restrict_lexicon self xs))"
    by (simp add: batch_restrict_lexicon_snoc lexicon_step_def)
next
  assume "restrict_lexicon x = None"
  then show "snd (batch_restrict_lexicon self (xs @ [x])) = snd (batch_restrict_lexicon self xs)"
    by (simp add: batch_restrict_lexicon_snoc lexicon_step_def split: lexicon_config.splits)
qed

theorem batch_lexicon_choice_witness:
  "fst (batch_restrict_lexicon (demo_translator NoLexicon 2 10)
         ([plain_input 0 [''u''] (Some 1)] @ [plain_input 1 [''v''] (Some 2)])) = Some 2
   \<and> fst (batch_restrict_lexicon (demo_translator (LexiconDict [(''a'', 1)]) 2 10)
         ([plain_input 0 [''u''] (Some 1)] @ [plain_input 1 [''v''] None])) = None
   \<and> fst (batch_restrict_lexicon (demo_translator (SingleLexicon 7) 2 10)
         ([plain_input 0 [''u''] (Some 1)] @ [plain_input 1 [''v''] None])) = Some 7
   \<and> snd (batch_restrict_lexicon (demo_translator (LexiconDict [(''a'', 1), (''b'', 2)]) 2 10)
         ([plain_input 0 [''u''] (Some 1)] @ [plain_input 1 [''v''] (Some 2)])) = [IntId 1]"
proof -
  have 1: "restrict_lexicon (plain_input 1 [''v''] (Some 2)) = Some 2"
    and 2: "restrict_lexicon (plain_input 1 [''v''] None) = None"
    by (simp_all add: plain_input_def)
  have a: "fst (batch_restrict_lexicon (demo_translator NoLexicon 2 10)
         ([plain_input 0 [''u''] (Some 1)] @ [plain_input 1 [''v''] (Some 2)])) = Some 2"
    using batch_lexicon_choice [of "demo_translator NoLexicon 2 10" "[plain_input 0 [''u''] (Some 1)]"
        "plain_input 1 [''v''] (Some 2)"] 1 by blast
  have b: "fst (batch_restrict_lexicon (demo_translator (LexiconDict [(''a'', 1)]) 2 10)
         ([plain_input 0 [''u''] (Some 1)] @ [plain_input 1 [''v''] None])) = None"
    using batch_lexicon_choice [of "demo_translator (LexiconDict [(''a'', 1)]) 2 10"
        "[plain_input 0 [''u''] (Some 1)]" "plain_input 1 [''v''] None"] 2
    by (simp add: demo_translator_def)
  have c: "fst (batch_restrict_lexicon (demo_translator (SingleLexicon 7) 2 10)
         ([plain_input 0 [''u''] (Some 1)] @ [plain_input 1 [''v''] None])) = Some 7"
    using batch_lexicon_choice [of "demo_translator (SingleLexicon 7) 2 10"
        "[plain_input 0 [''u''] (Some 1)]" "plain_input 1 [''v''] None"] 2
    by (simp add: demo_translator_def)
  have first: "batch_restrict_lexicon (demo_translator (LexiconDict [(''a'', 1), (''b'', 2)]) 2 10)
         [plain_input 0 [''u''] (Some 1)] = (Some 1, [])"
    by (simp add: batch_restrict_lexicon_def lexicon_step_def plain_input_def)
  have sid: "sentence_id (plain_input 1 [''v''] (Some 2)) = IntId 1"
    by (simp add: plain_input_def)
  have "snd (batch_restrict_lexicon (demo_translator (LexiconDict [(''a'', 1), (''b'', 2)]) 2 10)
         ([plain_input 0 [''u''] (Some 1)] @ [plain_input 1 [''v''] (Some 2)])) =
           (if fst (batch_restrict_lexicon (demo_translator (LexiconDict [(''a'', 1), (''b'', 2)]) 2 10)
                      [plain_input 0 [''u''] (Some 1)]) \<noteq> None
               \<and> fst (batch_restrict_lexicon (demo_translator (LexiconDict [(''a'', 1), (''b'', 2)]) 2 10)
                      [plain_input 0 [''u''] (Some 1)]) \<noteq> Some 2
            then snd (batch_restrict_lexicon (demo_translator (LexiconDict [(''a'', 1), (''b'', 2)]) 2 10)
                      [plain_input 0 [''u''] (Some 1)]) @ [sentence_id (plain_input 1 [''v''] (Some 2))]
            else snd (batch_restrict_lexicon (demo_translator (LexiconDict [(''a'', 1), (''b'', 2)]) 2 10)
                      [plain_input 0 [''u''] (Some 1)]))"
    using batch_lexicon_choice [of "demo_translator (LexiconDict [(''a'', 1), (''b'', 2)]) 2 10"
        "[plain_input 0 [''u''] (Some 1)]" "plain_input 1 [''v''] (Some 2)"] 1 by blast
  then have d: "snd (batch_restrict_lexicon (demo_translator (LexiconDict [(''a'', 1), (''b'', 2)]) 2 10)
         ([plain_input 0 [''u''] (Some 1)] @ [plain_input 1 [''v''] (Some 2)])) = [IntId 1]"
    unfolding first sid fst_conv snd_conv by simp
  show ?thesis using a b c d by blast
qed


section \<open>Concatenation of chunk translations\<close>

lemma np_add_error: "np_add xs ys = Inl e \<Longrightarrow> e = ValueError"
  by (auto simp: np_add_def split: if_splits)

lemma np_add_non_empty: "np_add xs ys = Inr sc \<Longrightarrow> xs \<noteq> [] \<Longrightarrow> ys \<noteq> [] \<Longrightarrow> sc \<noteq> []"
  by (auto simp: np_add_def split: if_splits)

lemma np_add_same_length: "length xs = length ys \<Longrightarrow> \<exists>sc. np_add xs ys = Inr sc \<and> length sc = length ys"
  by (simp add: np_add_def)

lemma concat_step_empty_ids:
  "idx \<noteq> n - 1 \<Longrightarrow> target_ids t = [] \<Longrightarrow> concat_step stop scr n st (idx, t) = Inl IndexError"
  by (simp add: concat_step_def)

lemma concat_step_error:
  assumes "concat_step stop scr n st (idx, t) = Inl e"
    and "idx \<noteq> n - 1 \<longrightarrow> target_ids t \<noteq> [] \<and> last (target_ids t) \<noteq> []"
  shows "e = ValueError"
  using assms
  by (auto simp: concat_step_def Let_def split: if_splits list.splits sum.splits dest: np_add_error)

lemma concat_step_scores_non_empty:
  assumes "concat_step stop scr n st (idx, t) = Inr st'" "cs_scores st \<noteq> []"
  shows "cs_scores st' \<noteq> []"
  using assms
  by (auto simp: concat_step_def Let_def split: if_splits list.splits sum.splits dest: np_add_non_empty)

lemma concat_step_ok:
  assumes "idx \<noteq> n - 1 \<longrightarrow> target_ids t \<noteq> [] \<and> last (target_ids t) \<noteq> []"
    and "scores t \<noteq> []" "length (cs_scores st) = length (scores t)"
  shows "\<exists>st'. concat_step stop scr n st (idx, t) = Inr st' \<and> length (cs_scores st') = length (scores t)"
proof -
  obtain s fs where sc: "scores t = s # fs" using assms(2) by (cases "scores t") auto
  show ?thesis
    using assms(1,3) by (simp add: concat_step_def Let_def np_add_def sc)
qed

lemma concat_loop_fails:
  assumes "j < length ts" "k + j \<noteq> n - 1" "target_ids (ts ! j) = []"
  shows "\<exists>e. concat_loop stop scr n st (enumerate k ts) = Inl e"
  using assms
proof (induction ts arbitrary: k j st)
  case Nil
  then show ?case by simp
next
  case (Cons t ts)
  show ?case
  proof (cases j)
    case 0
    then have "concat_step stop scr n st (k, t) = Inl IndexError"
      using Cons.prems by (simp add: concat_step_empty_ids)
    then show ?thesis by simp
  next
    case (Suc j')
    show ?thesis
    proof (cases "concat_step stop scr n st (k, t)")
      case (Inl e)
      then show ?thesis by simp
    next
      case (Inr st')
      have "\<exists>e. concat_loop stop scr n st' (enumerate (Suc k) ts) = Inl e"
        using Cons.IH [of j' "Suc k" st'] Cons.prems Suc by simp
      then show ?thesis using Inr by simp
    qed
  qed
qed

lemma concat_loop_error:
  assumes "concat_loop stop scr n st (enumerate k ts) = Inl e"
    and "\<forall>j < length ts. k + j \<noteq> n - 1 \<longrightarrow> target_ids (ts ! j) \<noteq> [] \<and> last (target_ids (ts ! j)) \<noteq> []"
  shows "e = ValueError"
  using assms
proof (induction ts arbitrary: k st)
  case Nil
  then show ?case by simp
next
  case (Cons t ts)
  have hd: "k \<noteq> n - 1 \<longrightarrow> target_ids t \<noteq> [] \<and> last (target_ids t) \<noteq> []"
    using Cons.prems(2) by force
  have tl: "\<forall>j < length ts. Suc k + j \<noteq> n - 1 \<longrightarrow>
              target_ids (ts ! j) \<noteq> [] \<and> last (target_ids (ts ! j)) \<noteq> []"
  proof (intro allI impI)
    fix j assume "j < length ts" "Suc k + j \<noteq> n - 1"
    then show "target_ids (ts ! j) \<noteq> [] \<and> last (target_ids (ts ! j)) \<noteq> []"
      using Cons.prems(2) [rule_format, of "Suc j"] by simp
  qed
  show ?case
  proof (cases "concat_step stop scr n st (k, t)")
    case (Inl e')
    then have "e' = ValueError" using concat_step_error hd by blast
    then show ?thesis using Inl Cons.prems(1) by simp
  next
    case (Inr st')
    then have "concat_loop stop scr n st' (enumerate (Suc k) ts) = Inl e"
      using Cons.prems(1) by simp
    then show ?thesis using Cons.IH tl by blast
  qed
qed

lemma concat_loop_scores_non_empty:
  assumes "concat_loop stop scr n st its = Inr st'" "cs_scores st \<noteq> []"
  shows "cs_scores st' \<noteq> []"
  using assms
proof (induction its arbitrary: st)
  case Nil
  then show ?case by simp
next
  case (Cons it its)
  obtain idx t where it: "it = (idx, t)" by (cases it)
  show ?case
  proof (cases "concat_step stop scr n st it")
    case (Inl e)
    then show ?thesis using Cons.prems by simp
  next
    case (Inr st1)
    then have "cs_scores st1 \<noteq> []"
      using concat_step_scores_non_empty Cons.prems(2) it by blast
    then show ?thesis using Cons.IH [of st1] Cons.prems(1) Inr by simp
  qed
qed

lemma concat_loop_ok:
  assumes "\<forall>j < length ts. k + j \<noteq> n - 1 \<longrightarrow> target_ids (ts ! j) \<noteq> [] \<and> last (target_ids (ts ! j)) \<noteq> []"
    and "\<forall>t \<in> set ts. scores t \<noteq> [] \<and> length (scores t) = m" "length (cs_scores st) = m"
  shows "\<exists>st'. concat_loop stop scr n st (enumerate k ts) = Inr st' \<and> length (cs_scores st') = m"
  using assms
proof (induction ts arbitrary: k st)
  case Nil
  then show ?case by simp
next
  case (Cons t ts)
  have hd: "k \<noteq> n - 1 \<longrightarrow> target_ids t \<noteq> [] \<and> last (target_ids t) \<noteq> []"
    using Cons.prems(1) by force
  have tl: "\<forall>j < length ts. Suc k + j \<noteq> n - 1 \<longrightarrow>
              target_ids (ts ! j) \<noteq> [] \<and> last (target_ids (ts ! j)) \<noteq> []"
  proof (intro allI impI)
    fix j assume "j < length ts" "Suc k + j \<noteq> n - 1"
    then show "target_ids (ts ! j) \<noteq> [] \<and> last (target_ids (ts ! j)) \<noteq> []"
      using Cons.prems(1) [rule_format, of "Suc j"] by simp
  qed
  obtain st1 where st1: "concat_step stop scr n st (k, t) = Inr st1" "length (cs_scores st1) = m"
    using concat_step_ok [OF hd, of st stop scr] Cons.prems(2,3) by auto
  obtain st' where "concat_loop stop scr n st1 (enumerate (Suc k) ts) = Inr st'" "length (cs_scores st') = m"
    using Cons.IH [OF tl _ st1(2)] Cons.prems(2) by auto
  then show ?case using st1 by simp
qed


lemma concat_first_step_scores:
  assumes "concat_step stop scr n st (idx, t) = Inr st1"
    and "cs_scores st = replicate (length (scores t)) z"
  shows "cs_scores st1 \<noteq> []"
  using assms
  by (auto simp: concat_step_def Let_def np_add_def split: if_splits list.splits sum.splits)

lemma non_final_rows:
  assumes "non_final_non_empty ts" "wf_token_ids ts"
  shows "\<forall>j < length ts. 0 + j \<noteq> length ts - 1 \<longrightarrow>
           target_ids (ts ! j) \<noteq> [] \<and> last (target_ids (ts ! j)) \<noteq> []"
proof (intro allI impI)
  fix j assume j: "j < length ts" "0 + j \<noteq> length ts - 1"
  then have ne: "target_ids (ts ! j) \<noteq> []"
    using assms(1) by (simp add: non_final_non_empty_def)
  have "[] \<notin> set (target_ids (ts ! j))"
    using assms(2) j(1) by (simp add: wf_token_ids_def)
  then have "last (target_ids (ts ! j)) \<noteq> []"
    using ne last_in_set by metis
  then show "target_ids (ts ! j) \<noteq> [] \<and> last (target_ids (ts ! j)) \<noteq> []"
    using ne by simp
qed

lemma concat_translations_cons:
  "length (first # rest) \<noteq> 1 \<Longrightarrow>
   concat_translations stop scr (first # rest) =
     (case concat_loop stop scr (length (first # rest))
             \<lparr> cs_target_ids = [], cs_estimated_reference_length = None,
               cs_scores = replicate (length (scores first)) (Fin 0) \<rparr>
             (enumerate 0 (first # rest)) of
        Inl e \<Rightarrow> Inl e
      | Inr st \<Rightarrow>
         (case cs_scores st of
            [] \<Rightarrow> Inl IndexError
          | s0 # srest \<Rightarrow>
              Inr \<lparr> target_ids = cs_target_ids st,
                    scores = scorer_call scr s0 (length (cs_target_ids st))
                               (cs_estimated_reference_length st) # srest,
                    nbest_translations = None,
                    estimated_reference_length = cs_estimated_reference_length st \<rparr>))"
  by (simp add: concat_translations_def)

lemma concat_translations_raises:
  assumes "2 \<le> length ts" "\<not> non_final_non_empty ts"
  shows "isl (concat_translations stop scr ts)"
proof -
  obtain i where i: "i + 1 < length ts" "target_ids (ts ! i) = []"
    using assms(2) by (auto simp: non_final_non_empty_def)
  obtain first rest where ts: "ts = first # rest"
    using assms(1) by (cases ts) auto
  have n1: "length (first # rest) \<noteq> 1" using assms(1) ts by auto
  have "\<exists>e. concat_loop stop scr (length ts)
             \<lparr> cs_target_ids = [], cs_estimated_reference_length = None,
               cs_scores = replicate (length (scores first)) (Fin 0) \<rparr>
             (enumerate 0 ts) = Inl e"
    using i by (intro concat_loop_fails [of i]) simp_all
  then show ?thesis
    unfolding ts concat_translations_cons [OF n1] by auto
qed

lemma concat_translations_no_index_error:
  assumes "ts \<noteq> []" "non_final_non_empty ts" "wf_token_ids ts"
  shows "concat_translations stop scr ts \<noteq> Inl IndexError"
proof (cases "length ts = 1")
  case True
  then show ?thesis by (simp add: concat_translations_def)
next
  case False
  obtain first rest where ts: "ts = first # rest"
    using assms(1) by (cases ts) auto
  have n1: "length (first # rest) \<noteq> 1" using False ts by simp
  define st0 where "st0 = \<lparr> cs_target_ids = [], cs_estimated_reference_length = None,
               cs_scores = replicate (length (scores first)) (Fin 0) \<rparr>"
  note rows = non_final_rows [OF assms(2,3)]
  show ?thesis
  proof (cases "concat_loop stop scr (length ts) st0 (enumerate 0 ts)")
    case (Inl e)
    then have "e = ValueError" using concat_loop_error rows by blast
    then show ?thesis
      using Inl unfolding ts concat_translations_cons [OF n1] st0_def by simp
  next
    case (Inr st)
    obtain st1 where st1: "concat_step stop scr (length ts) st0 (0, first) = Inr st1"
      and rest: "concat_loop stop scr (length ts) st1 (enumerate 1 rest) = Inr st"
      using Inr unfolding ts by (auto split: sum.splits)
    have "cs_scores st1 \<noteq> []"
      by (rule concat_first_step_scores [OF st1, of "Fin 0"]) (simp add: st0_def)
    then have "cs_scores st \<noteq> []"
      using concat_loop_scores_non_empty [OF rest] by simp
    then show ?thesis
      using Inr unfolding ts concat_translations_cons [OF n1] st0_def
      by (auto split: list.splits)
  qed
qed

lemma concat_translations_returns:
  assumes "ts \<noteq> []" "non_final_non_empty ts" "wf_token_ids ts" "wf_scores ts"
  shows "\<exists>t. concat_translations stop scr ts = Inr t"
proof (cases "length ts = 1")
  case True
  then show ?thesis by (simp add: concat_translations_def)
next
  case False
  obtain first rest where ts: "ts = first # rest"
    using assms(1) by (cases ts) auto
  have n1: "length (first # rest) \<noteq> 1" using False ts by simp
  define st0 where "st0 = \<lparr> cs_target_ids = [], cs_estimated_reference_length = None,
               cs_scores = replicate (length (scores first)) (Fin 0) \<rparr>"
  have sc: "\<forall>t \<in> set ts. scores t \<noteq> [] \<and> length (scores t) = length (scores first)"
    using assms(4) by (simp add: wf_scores_def ts)
  have "\<exists>st'. concat_loop stop scr (length ts) st0 (enumerate 0 ts) = Inr st'
           \<and> length (cs_scores st') = length (scores first)"
    by (rule concat_loop_ok [OF non_final_rows [OF assms(2,3)] sc]) (simp add: st0_def)
  then obtain st where st: "concat_loop stop scr (length ts) st0 (enumerate 0 ts) = Inr st"
    and len: "length (cs_scores st) = length (scores first)" by blast
  have "scores first \<noteq> []" using sc ts by simp
  then have "cs_scores st \<noteq> []" using len by auto
  then show ?thesis
    using st unfolding ts concat_translations_cons [OF n1] st0_def
    by (auto split: list.splits)
qed

text \<open>
  Claim C10. \<^verbatim>\<open>_concat_translations\<close> raises on every list of two or more translations
  in which a translation other than the last has no target ids. When every translation
  but the last has target ids (and every row its primary id), the \<^verbatim>\<open>IndexError\<close> of
  the read \<^verbatim>\<open>target_ids[-1][0]\<close> cannot occur; when moreover the score lists are
  non-empty and of one length, the function returns a translation.
\<close>

theorem concat_translations_needs_non_empty_chunks:
  "(2 \<le> length ts \<and> \<not> non_final_non_empty ts \<longrightarrow> isl (concat_translations stop scr ts))
   \<and> (ts \<noteq> [] \<and> non_final_non_empty ts \<and> wf_token_ids ts \<longrightarrow>
         concat_translations stop scr ts \<noteq> Inl IndexError)
   \<and> (ts \<noteq> [] \<and> non_final_non_empty ts \<and> wf_token_ids ts \<and> wf_scores ts \<longrightarrow>
         (\<exists>t. concat_translations stop scr ts = Inr t))"
  using concat_translations_raises concat_translations_no_index_error concat_translations_returns
  by blast

theorem concat_translations_needs_non_empty_chunks_witness:
  "concat_translations {3, 0} demo_scorer
      [chunk_translation [] [Fin 1], chunk_translation [[6], [3]] [Fin 2]] = Inl IndexError
   \<and> concat_translations {3, 0} demo_scorer
      [chunk_translation [[5], [3]] [Fin 1], chunk_translation [[6], [3]] [Fin 2]]
       = Inr (chunk_translation [[5], [6], [3]] [Fin 3])"
proof -
  let ?bad = "[chunk_translation [] [Fin 1], chunk_translation [[6], [3]] [Fin 2]]"
  let ?good = "[chunk_translation [[5], [3]] [Fin 1], chunk_translation [[6], [3]] [Fin 2]]"
  have b: "2 \<le> length ?bad \<and> \<not> non_final_non_empty ?bad"
    by (simp add: non_final_non_empty_def chunk_translation_def)
  have g: "?good \<noteq> [] \<and> non_final_non_empty ?good \<and> wf_token_ids ?good \<and> wf_scores ?good"
    by (simp add: non_final_non_empty_def wf_token_ids_def wf_scores_def chunk_translation_def
          less_Suc_eq)
  have 1: "isl (concat_translations {3, 0} demo_scorer ?bad)"
    using concat_translations_needs_non_empty_chunks [of ?bad "{3, 0}" demo_scorer] b by blast
  have 2: "\<exists>t. concat_translations {3, 0} demo_scorer ?good = Inr t"
    using concat_translations_needs_non_empty_chunks [of ?good "{3, 0}" demo_scorer] g by blast
  have e1: "concat_translations {3, 0} demo_scorer ?bad = Inl IndexError"
    by (simp add: concat_translations_def concat_step_def chunk_translation_def enumerate_eq_zip)
  have e2: "concat_translations {3, 0} demo_scorer ?good
       = Inr (chunk_translation [[5], [6], [3]] [Fin 3])"
    by (simp add: concat_translations_def concat_step_def chunk_translation_def enumerate_eq_zip
          np_add_def demo_scorer_def Let_def)
  show ?thesis using 1 2 e1 e2 by simp
qed


section \<open>Sorting and batching\<close>

lemma grouper_Nil [simp]: "grouper [] n = []"
  by simp

lemma grouper_zero [simp]: "grouper xs 0 = []"
  by simp

lemma grouper_step: "0 < n \<Longrightarrow> xs \<noteq> [] \<Longrightarrow> grouper xs n = take n xs # grouper (drop n xs) n"
  by (subst grouper.simps) simp

declare grouper.simps [simp del]


lemma grouper_groups: "g \<in> set (grouper xs n) \<Longrightarrow> g \<noteq> [] \<and> length g \<le> n"
proof (induction xs n rule: grouper.induct)
  case (1 xs n)
  show ?case
  proof (cases "n = 0 \<or> xs = []")
    case True
    then show ?thesis using 1 by auto
  next
    case False
    then have "g = take n xs \<or> g \<in> set (grouper (drop n xs) n)"
      using 1(2) by (simp add: grouper_step)
    then show ?thesis using 1(1) False by auto
  qed
qed

lemma grouper_full: "i + 1 < length (grouper xs n) \<Longrightarrow> length (grouper xs n ! i) = n"
proof (induction xs n arbitrary: i rule: grouper.induct)
  case (1 xs n)
  show ?case
  proof (cases "n = 0 \<or> xs = []")
    case True
    then show ?thesis using 1 by auto
  next
    case False
    then have eq: "grouper xs n = take n xs # grouper (drop n xs) n"
      by (simp add: grouper_step)
    show ?thesis
    proof (cases i)
      case 0
      then have "grouper (drop n xs) n \<noteq> []" using 1(2) eq by auto
      then have "drop n xs \<noteq> []" by auto
      then show ?thesis using 0 eq by auto
    next
      case (Suc j)
      then show ?thesis using 1 False eq by auto
    qed
  qed
qed










section \<open>The structure of \<^verbatim>\<open>translate\<close>\<close>








lemma enumerate_map_nth:
  "map (\<lambda>(k, c). f k c) (enumerate 0 xs) = map (\<lambda>k. f k (xs ! k)) [0..<length xs]"
  by (rule nth_equalityI) (simp_all add: nth_enumerate_eq)

lemma split_input_eq:
  "split_input self (i, inp) =
     Inr (if bypasses self inp then ([empty_chunk self i], []) else ([], indexed_chunks self i inp))"
proof (cases "bypasses self inp")
  case True
  then show ?thesis
    by (auto simp: split_input_def bypasses_def empty_chunk_def Let_def)
next
  case False
  then have L: "0 < max_input_length self - int (num_source_prefix_tokens inp)"
    and nb: "\<not> is_bad inp" "tokens inp \<noteq> []"
    by (auto simp: bypasses_def)
  show ?thesis
  proof (cases "int (length (tokens inp)) > max_input_length self - int (num_source_prefix_tokens inp)")
    case True
    have ch: "chunks inp (max_input_length self - int (num_source_prefix_tokens inp)) =
        Inr (map (\<lambda>k. chunk_at inp (nat (max_input_length self - int (num_source_prefix_tokens inp))) k
                        (k * nat (max_input_length self - int (num_source_prefix_tokens inp))))
             [0..<(length (tokens inp) + nat (max_input_length self - int (num_source_prefix_tokens inp)) - 1)
                   div nat (max_input_length self - int (num_source_prefix_tokens inp))])"
      by (rule chunks_eq [OF L])
    show ?thesis
      using False True L nb
      by (simp add: split_input_def Let_def ch indexed_chunks_def chunk_inputs_def
            enumerate_map_nth [where f = "\<lambda>k c. \<lparr>input_idx = i, chunk_idx = k, translator_input = c\<rparr>"] comp_def)
  next
    case F2: False
    show ?thesis
      using False F2 L nb
      by (simp add: split_input_def Let_def indexed_chunks_def chunk_inputs_def)
  qed
qed

lemma split_inputs_eq:
  "split_inputs self inputs = Inr (bad_or_empty_of self inputs, input_chunks_of self inputs)"
proof -
  let ?g = "\<lambda>p. (if bypasses self (snd p) then ([empty_chunk self (fst p)], [])
                   else ([], indexed_chunks self (fst p) (snd p)))"
  have "map_err (split_input self) (enumerate 0 inputs) = Inr (map ?g (enumerate 0 inputs))"
    by (rule map_err_Inr) (auto simp: split_input_eq)
  moreover have "map (\<lambda>(i, inp). fst (?g (i, inp))) (enumerate 0 inputs)
      = map (\<lambda>i. fst (?g (i, inputs ! i))) [0..<length inputs]"
    by (rule enumerate_map_nth)
  moreover have "map (\<lambda>(i, inp). snd (?g (i, inp))) (enumerate 0 inputs)
      = map (\<lambda>i. snd (?g (i, inputs ! i))) [0..<length inputs]"
    by (rule enumerate_map_nth)
  ultimately show ?thesis
    by (simp add: split_inputs_def bad_or_empty_of_def input_chunks_of_def comp_def split_def
          if_distrib [of fst] if_distrib [of snd] cong: if_cong)
qed



lemma in_input_chunks_of:
  "c \<in> set (input_chunks_of self inputs) \<longleftrightarrow>
     (\<exists>i < length inputs. \<not> bypasses self (inputs ! i) \<and> c \<in> set (indexed_chunks self i (inputs ! i)))"
  by (auto simp: input_chunks_of_def split: if_splits)

lemma in_indexed_chunks:
  "c \<in> set (indexed_chunks self i inp) \<longleftrightarrow>
     (\<exists>k < length (chunk_inputs self inp).
        c = \<lparr> input_idx = i, chunk_idx = k, translator_input = chunk_inputs self inp ! k \<rparr>)"
  by (auto simp: indexed_chunks_def)
















section \<open>Bad and empty inputs\<close>






lemma make_result_sentence_id:
  "make_result self inp t = Inr out \<Longrightarrow> o_sentence_id out = sentence_id inp"
  by (auto simp: make_result_def split: sum.splits list.splits prod.splits option.splits)

lemma assemble_result_sentence_id:
  "assemble_result self (inp, k, g) = Inr out \<Longrightarrow> o_sentence_id out = sentence_id inp"
  by (auto simp: assemble_result_def Let_def split: if_splits sum.splits
        dest: make_result_sentence_id)


lemma grouper_subset: "g \<in> set (grouper xs n) \<Longrightarrow> set g \<subseteq> set xs"
proof (induction xs n rule: grouper.induct)
  case (1 xs n)
  show ?case
  proof (cases "n = 0 \<or> xs = []")
    case True
    then show ?thesis using 1 by auto
  next
    case False
    then have "g = take n xs \<or> g \<in> set (grouper (drop n xs) n)"
      using 1(2) by (simp add: grouper_step)
    then show ?thesis
      using 1(1) False by (auto dest: in_set_takeD in_set_dropD)
  qed
qed


lemma batches_subset: "g \<in> set (batches self fill cs) \<Longrightarrow> set g \<subseteq> set cs"
  using grouper_subset [of g "sort_input_chunks cs"] by (simp add: batches_def sort_input_chunks_def)



subsection \<open>Padding of the last batch\<close>

lemma grouper_min: "grouper xs (min (length xs) n) = grouper xs n"
proof (cases "length xs \<le> n")
  case True
  show ?thesis
  proof (cases xs)
    case Nil
    then show ?thesis by simp
  next
    case (Cons y ys)
    then have ne: "xs \<noteq> []" and n: "0 < n" and l: "0 < length xs"
      using True by auto
    have "grouper xs (length xs) = take (length xs) xs # grouper (drop (length xs) xs) (length xs)"
      by (rule grouper_step [OF l ne])
    then have 1: "grouper xs (length xs) = [xs]" by simp
    have "grouper xs n = take n xs # grouper (drop n xs) n"
      by (rule grouper_step [OF n ne])
    then have 2: "grouper xs n = [xs]" using True by simp
    show ?thesis using 1 2 True by (simp add: min_absorb1)
  qed
next
  case False
  then show ?thesis by (simp add: min_absorb2)
qed

lemma batches_fill_irrelevant: "batches self True cs = batches self False cs"
  using grouper_min [of "sort_input_chunks cs" "max_batch_size self"]
  by (simp add: batches_def translate_batch_size_def sort_input_chunks_def)

lemma batch_lexicon_same:
  assumes "xs \<noteq> []" "\<forall>x \<in> set xs. restrict_lexicon x = l"
  shows "fst (batch_restrict_lexicon self xs) =
           (case l of
              Some v \<Rightarrow> Some v
            | None \<Rightarrow> (case translator_restrict_lexicon self of
                          NoLexicon \<Rightarrow> None
                        | LexiconDict d \<Rightarrow> None
                        | SingleLexicon s \<Rightarrow> Some s))"
  using assms
proof (induction xs rule: rev_induct)
  case Nil
  then show ?case by simp
next
  case (snoc x xs)
  show ?case
  proof (cases "xs = []")
    case True
    then show ?thesis
      using snoc.prems
      by (simp add: batch_restrict_lexicon_def lexicon_step_def
            split: option.splits lexicon_config.splits)
  next
    case False
    then have "fst (batch_restrict_lexicon self xs) =
           (case l of Some v \<Rightarrow> Some v
            | None \<Rightarrow> (case translator_restrict_lexicon self of
                          NoLexicon \<Rightarrow> None | LexiconDict d \<Rightarrow> None | SingleLexicon s \<Rightarrow> Some s))"
      using snoc by simp
    then show ?thesis
      using snoc.prems
      by (simp add: batch_restrict_lexicon_snoc lexicon_step_def
            split: option.splits lexicon_config.splits)
  qed
qed

lemma chunk_inputs_lexicon:
  "c \<in> set (chunk_inputs self inp) \<Longrightarrow> restrict_lexicon c = restrict_lexicon inp"
  by (auto simp: chunk_inputs_def Let_def with_eos_def chunk_at_def split: if_splits)

lemma input_chunks_lexicon:
  assumes "c \<in> set (input_chunks_of self inputs)"
  shows "\<exists>inp \<in> set inputs. restrict_lexicon (translator_input c) = restrict_lexicon inp"
proof -
  obtain i where i: "i < length inputs" "c \<in> set (indexed_chunks self i (inputs ! i))"
    using assms unfolding in_input_chunks_of by blast
  then obtain k where "k < length (chunk_inputs self (inputs ! i))"
    "translator_input c = chunk_inputs self (inputs ! i) ! k"
    by (auto simp: in_indexed_chunks)
  then have "restrict_lexicon (translator_input c) = restrict_lexicon (inputs ! i)"
    using chunk_inputs_lexicon [of "translator_input c" self "inputs ! i"] by simp
  then show ?thesis using i(1) by auto
qed

lemma map_err_cong:
  assumes "\<And>x. x \<in> set xs \<Longrightarrow> f x = g x"
  shows "map_err f xs = map_err g xs"
  using assms
proof (induction xs)
  case Nil
  then show ?case by simp
next
  case (Cons x xs)
  have "f x = g x" "map_err f xs = map_err g xs" using Cons by simp_all
  then show ?case by (simp only: map_err.simps)
qed

lemma translate_batch_padded:
  assumes "length (b # g') < bs"
  shows "translate_batch self True bs (b # g') =
     (case translate_np self
             (fst (batch_restrict_lexicon self
                     (map translator_input ((b # g') @ replicate (nat (int bs - int (length (b # g')))) b))))
             (map translator_input ((b # g') @ replicate (nat (int bs - int (length (b # g')))) b)) of
        Inl e \<Rightarrow> Inl e
      | Inr ts \<Rightarrow>
          Inr (map (\<lambda>(chunk, t). \<lparr> t_input_idx = input_idx chunk, t_chunk_idx = chunk_idx chunk,
                                     translation = t \<rparr>)
                 (zip ((b # g') @ replicate (nat (int bs - int (length (b # g')))) b)
                      (take (length ts - nat (int bs - int (length (b # g')))) ts))))"
  using assms unfolding translate_batch_def Let_def by (auto split: sum.splits)

lemma translate_batch_fill_irrelevant:
  assumes it: "np_itemwise self decode"
    and g: "g \<noteq> []" "length g \<le> bs"
    and lx: "\<forall>c \<in> set g. restrict_lexicon (translator_input c) = l"
  shows "translate_batch self True bs g = translate_batch self False bs' g"
proof -
  define F where "F = (case l of Some v \<Rightarrow> Some v
            | None \<Rightarrow> (case translator_restrict_lexicon self of
                          NoLexicon \<Rightarrow> None | LexiconDict d \<Rightarrow> None | SingleLexicon s \<Rightarrow> Some s))"
  define mk :: "indexed_translator_input \<times> translation \<Rightarrow> indexed_translation"
    where "mk = (\<lambda>(chunk, t). \<lparr> t_input_idx = input_idx chunk, t_chunk_idx = chunk_idx chunk,
                                 translation = t \<rparr>)"
  have lu: "fst (batch_restrict_lexicon self (map translator_input g)) = F"
    unfolding F_def using g(1) lx by (intro batch_lexicon_same) auto
  have unpadded: "translate_batch self False bs' g
      = Inr (map mk (zip g (map (decode F) (map translator_input g))))"
    using it by (simp add: translate_batch_def Let_def lu np_itemwise_def mk_def)
  show ?thesis
  proof (cases "int bs - int (length g) > 0")
    case False
    then have "translate_batch self True bs g
      = Inr (map mk (zip g (map (decode F) (map translator_input g))))"
      using it by (simp add: translate_batch_def Let_def lu np_itemwise_def mk_def)
    then show ?thesis using unpadded by simp
  next
    case True
    obtain b g' where gc: "g = b # g'" using g(1) by (cases g) auto
    define r where "r = nat (int bs - int (length g))"
    define batch where "batch = g @ replicate r b"
    have lp: "fst (batch_restrict_lexicon self (map translator_input batch)) = F"
      unfolding F_def using g(1) lx gc by (intro batch_lexicon_same) (auto simp: batch_def)
    have tk: "take (length (map (decode F) (map translator_input batch)) - r)
                (map (decode F) (map translator_input batch))
              = map (decode F) (map translator_input g)"
      by (simp add: batch_def)
    have zp: "zip batch (map (decode F) (map translator_input g))
            = zip g (map (decode F) (map translator_input g))"
      by (simp add: batch_def zip_append1)
    have lt: "length (b # g') < bs" using True gc by simp
    have "translate_batch self True bs g
      = Inr (map mk (zip batch (take (length (map (decode F) (map translator_input batch)) - r)
                (map (decode F) (map translator_input batch)))))"
      unfolding gc translate_batch_padded [OF lt]
      using it lp by (simp add: np_itemwise_def mk_def batch_def r_def gc del: length_map)
    then show ?thesis using unpadded by (simp only: tk zp)
  qed
qed


lemma zip_append_take: "zip (xs @ ys) (take (length xs) ts) = zip xs (take (length xs) ts)"
  by (simp add: zip_append1)

lemma map_input_idx_zip:
  assumes "length g \<le> length ts"
  shows "map t_input_idx
           (map (\<lambda>(chunk, t). \<lparr> t_input_idx = input_idx chunk,
                                  t_chunk_idx = chunk_idx chunk, translation = t \<rparr>)
              (zip g (take (length g) ts))) = map input_idx g"
  using assms
proof (induction g arbitrary: ts)
  case Nil
  then show ?case by simp
next
  case (Cons c g)
  then obtain t ts' where ts: "ts = t # ts'" by (cases ts) auto
  then have "length g \<le> length ts'" using Cons.prems by simp
  then show ?case using Cons.IH [of ts'] ts by simp
qed

lemma translate_batch_drops_filler:
  assumes np: "np_one_per_input self" and lt: "length (b # g') < bs"
  shows "\<exists>ts. translate_np self
                 (fst (batch_restrict_lexicon self
                         (map translator_input ((b # g') @ replicate (bs - length (b # g')) b))))
                 (map translator_input ((b # g') @ replicate (bs - length (b # g')) b)) = Inr ts
            \<and> length ts = bs
            \<and> translate_batch self True bs (b # g') =
                Inr (map (\<lambda>(chunk, t). \<lparr> t_input_idx = input_idx chunk,
                                           t_chunk_idx = chunk_idx chunk, translation = t \<rparr>)
                       (zip (b # g') (take (length (b # g')) ts)))"
proof -
  define r where "r = bs - length (b # g')"
  define batch where "batch = (b # g') @ replicate r b"
  have rn: "nat (int bs - int (length (b # g'))) = r"
    using lt by (simp add: r_def)
  have lb: "length batch = bs" using lt by (simp add: batch_def r_def)
  have "map translator_input batch \<noteq> []" by (simp add: batch_def)
  then obtain ts where ts: "translate_np self
        (fst (batch_restrict_lexicon self (map translator_input batch)))
        (map translator_input batch) = Inr ts"
    and lts: "length ts = length (map translator_input batch)"
    using np unfolding np_one_per_input_def by blast
  have l: "length ts = bs" using lts lb by simp
  have tk: "take (length ts - r) ts = take (length (b # g')) ts"
    using l lt by (simp add: r_def)
  have zp: "zip batch (take (length (b # g')) ts) = zip (b # g') (take (length (b # g')) ts)"
    unfolding batch_def by (rule zip_append_take)
  have "translate_batch self True bs (b # g') =
          Inr (map (\<lambda>(chunk, t). \<lparr> t_input_idx = input_idx chunk,
                                     t_chunk_idx = chunk_idx chunk, translation = t \<rparr>)
                 (zip batch (take (length ts - r) ts)))"
    unfolding translate_batch_padded [OF lt] rn batch_def [symmetric] ts by simp
  then have "translate_batch self True bs (b # g') =
          Inr (map (\<lambda>(chunk, t). \<lparr> t_input_idx = input_idx chunk,
                                     t_chunk_idx = chunk_idx chunk, translation = t \<rparr>)
                 (zip (b # g') (take (length (b # g')) ts)))"
    by (simp only: tk zp)
  then show ?thesis
    using ts l unfolding batch_def r_def by blast
qed

lemma translate_fill_irrelevant:
  assumes it: "np_itemwise self decode" and sl: "same_lexicon inputs"
  shows "translate self inputs True = translate self inputs False"
proof -
  define ics where "ics = input_chunks_of self inputs"
  define l where "l = restrict_lexicon (hd inputs)"
  have lx: "restrict_lexicon (translator_input c) = l" if c: "c \<in> set ics" for c
  proof -
    obtain inp where inp: "inp \<in> set inputs"
      "restrict_lexicon (translator_input c) = restrict_lexicon inp"
      using input_chunks_lexicon [of c self inputs] c unfolding ics_def by blast
    then have "inputs \<noteq> []" by auto
    then have "hd inputs \<in> set inputs" by simp
    then show ?thesis using sl inp unfolding same_lexicon_def l_def by metis
  qed
  have "map_err (translate_batch self True (translate_batch_size self True ics))
          (batches self True ics)
      = map_err (translate_batch self False (translate_batch_size self False ics))
          (batches self True ics)"
  proof (rule map_err_cong)
    fix g assume g: "g \<in> set (batches self True ics)"
    then have "g \<in> set (grouper (sort_input_chunks ics) (max_batch_size self))"
      by (simp add: batches_def translate_batch_size_def)
    then have ne: "g \<noteq> []" and le: "length g \<le> translate_batch_size self True ics"
      using grouper_groups by (auto simp: translate_batch_size_def)
    have "\<forall>c \<in> set g. restrict_lexicon (translator_input c) = l"
      using batches_subset [OF g] lx by blast
    then show "translate_batch self True (translate_batch_size self True ics) g
             = translate_batch self False (translate_batch_size self False ics) g"
      by (rule translate_batch_fill_irrelevant [OF it ne le])
  qed
  then have eqb: "map_err (translate_batch self True (translate_batch_size self True ics))
          (batches self True ics)
      = map_err (translate_batch self False (translate_batch_size self False ics))
          (batches self False ics)"
    by (simp only: batches_fill_irrelevant [of self ics])
  show ?thesis
    by (simp only: translate_def split_inputs_eq Let_def sum.case prod.case
          ics_def [symmetric] eqb)
qed

lemma demo_itemwise: "np_itemwise (demo_translator cfg bs mil) demo_decode"
  by (simp add: np_itemwise_def demo_translator_def demo_translate_np_def demo_decode_def)

lemma demo_one_per_input: "np_one_per_input (demo_translator cfg bs mil)"
  by (simp add: np_one_per_input_def demo_translator_def demo_translate_np_def)

lemma padded_translations:
  "map_sum id (map o_translation) (translate padding_translator padding_inputs True)
     = Inr [''z'', ''z'']"
  by code_simp

lemma unpadded_translations:
  "map_sum id (map o_translation) (translate padding_translator padding_inputs False)
     = Inr [''w'', ''w'']"
  by code_simp

lemma agreeing_translations:
  "map_sum id (map o_translation) (translate padding_translator agreeing_inputs True)
     = Inr [''z'', ''z'']"
  by code_simp

lemma padding_batches:
  "batches padding_translator True (map padding_chunk [0, 1, 2, 3])
     = [[padding_chunk 0, padding_chunk 1, padding_chunk 2], [padding_chunk 3]]"
  by code_simp

text \<open>
  Claim C5, as stated, fails. The translator pads to batches of three chunks and its
  collaborator translates every input on its own, to a word that depends on the lexicon of
  the batch only. The first input names the lexicon \<open>1\<close> and the second the lexicon \<open>2\<close>.
  Without padding the batch is the two chunks, its lexicon is the last one named,
  \<open>2\<close>, and both translations are \<^verbatim>\<open>w\<close>. With padding the batch ends with a copy of
  its first chunk, its lexicon is \<open>1\<close>, and both translations are \<^verbatim>\<open>z\<close>: the
  duplicate has changed the translations of the genuine items.
\<close>

theorem padding_changes_genuine_translations:
  "translate padding_translator padding_inputs True
     \<noteq> translate padding_translator padding_inputs False
   \<and> map_sum id (map o_translation) (translate padding_translator padding_inputs True)
       = Inr [''z'', ''z'']
   \<and> map_sum id (map o_translation) (translate padding_translator padding_inputs False)
       = Inr [''w'', ''w'']
   \<and> fst (batch_restrict_lexicon padding_translator padding_inputs) = Some 2
   \<and> fst (batch_restrict_lexicon padding_translator (padding_inputs @ [padding_inputs ! 0]))
       = Some 1"
proof -
  have "translate padding_translator padding_inputs True
          \<noteq> translate padding_translator padding_inputs False"
  proof
    assume "translate padding_translator padding_inputs True
              = translate padding_translator padding_inputs False"
    then have "map_sum id (map o_translation) (translate padding_translator padding_inputs True)
             = map_sum id (map o_translation) (translate padding_translator padding_inputs False)"
      by simp
    then show False
      unfolding padded_translations unpadded_translations by simp
  qed
  moreover have "fst (batch_restrict_lexicon padding_translator padding_inputs) = Some 2"
    by (simp add: batch_restrict_lexicon_def lexicon_step_def padding_inputs_def plain_input_def)
  moreover have "fst (batch_restrict_lexicon padding_translator
                        (padding_inputs @ [padding_inputs ! 0])) = Some 1"
    by (simp add: batch_restrict_lexicon_def lexicon_step_def padding_inputs_def plain_input_def)
  ultimately show ?thesis
    using padded_translations unpadded_translations by (simp only: simp_thms)
qed

text \<open>
  Claim C5, amended. With the fill-up policy only the last batch can be short: every batch
  but the last has the maximum batch size, and a batch of at least the batch size is
  translated as it is without the policy. A batch shorter than the batch size is extended
  by copies of its first chunk to the batch size; when the collaborator returns one
  translation for each of these inputs, the batch contributes the first translations paired
  with its genuine chunks, in their order, and no translation of a copy. When the
  collaborator translates every input of a batch on its own, from the lexicon of the batch
  and the input, and all inputs of the call name the same lexicon or none, \<^verbatim>\<open>translate\<close>
  returns with the fill-up policy exactly what it returns without it, so no translation and
  no score of a genuine item has changed.
\<close>

theorem fill_up_batches_neutral:
  "(np_one_per_input self \<and> length (b # g') < bs \<longrightarrow>
      (\<exists>ts. translate_np self
                 (fst (batch_restrict_lexicon self
                         (map translator_input ((b # g') @ replicate (bs - length (b # g')) b))))
                 (map translator_input ((b # g') @ replicate (bs - length (b # g')) b)) = Inr ts
            \<and> length ts = bs
            \<and> translate_batch self True bs (b # g') =
                Inr (map (\<lambda>(chunk, t). \<lparr> t_input_idx = input_idx chunk,
                                           t_chunk_idx = chunk_idx chunk, translation = t \<rparr>)
                       (zip (b # g') (take (length (b # g')) ts)))))
   \<and> (bs \<le> length g \<longrightarrow> translate_batch self True bs g = translate_batch self False bs g)
   \<and> (\<forall>i. i + 1 < length (batches self True cs) \<longrightarrow>
          length (batches self True cs ! i) = max_batch_size self)
   \<and> (np_itemwise self decode \<and> same_lexicon inputs \<longrightarrow>
        translate self inputs True = translate self inputs False)"
proof (intro conjI impI allI)
  assume "np_one_per_input self \<and> length (b # g') < bs"
  then show "\<exists>ts. translate_np self
                 (fst (batch_restrict_lexicon self
                         (map translator_input ((b # g') @ replicate (bs - length (b # g')) b))))
                 (map translator_input ((b # g') @ replicate (bs - length (b # g')) b)) = Inr ts
            \<and> length ts = bs
            \<and> translate_batch self True bs (b # g') =
                Inr (map (\<lambda>(chunk, t). \<lparr> t_input_idx = input_idx chunk,
                                           t_chunk_idx = chunk_idx chunk, translation = t \<rparr>)
                       (zip (b # g') (take (length (b # g')) ts)))"
    using translate_batch_drops_filler [of self b g' bs] by (simp only: simp_thms)
next
  assume "bs \<le> length g"
  then show "translate_batch self True bs g = translate_batch self False bs g"
    by (auto simp: translate_batch_def Let_def split: sum.splits)
next
  fix i assume "i + 1 < length (batches self True cs)"
  then show "length (batches self True cs ! i) = max_batch_size self"
    using grouper_full [of i "sort_input_chunks cs" "max_batch_size self"]
    by (simp add: batches_def translate_batch_size_def)
next
  assume "np_itemwise self decode \<and> same_lexicon inputs"
  then show "translate self inputs True = translate self inputs False"
    using translate_fill_irrelevant [of self decode inputs] by (simp only: simp_thms)
qed

theorem fill_up_batches_neutral_witness:
  "np_one_per_input padding_translator
   \<and> length (padding_chunk 0 # [padding_chunk 1]) < 3
   \<and> map t_input_idx
        (projr (translate_batch padding_translator True 3 (padding_chunk 0 # [padding_chunk 1])))
       = [0, 1]
   \<and> 3 \<le> length [padding_chunk 0, padding_chunk 1, padding_chunk 2]
   \<and> translate_batch padding_translator True 3 [padding_chunk 0, padding_chunk 1, padding_chunk 2]
       = translate_batch padding_translator False 3
           [padding_chunk 0, padding_chunk 1, padding_chunk 2]
   \<and> 0 + 1 < length (batches padding_translator True (map padding_chunk [0, 1, 2, 3]))
   \<and> length (batches padding_translator True (map padding_chunk [0, 1, 2, 3]) ! 0)
       = max_batch_size padding_translator
   \<and> np_itemwise padding_translator demo_decode
   \<and> same_lexicon agreeing_inputs
   \<and> translate padding_translator agreeing_inputs True
       = translate padding_translator agreeing_inputs False
   \<and> map_sum id (map o_translation) (translate padding_translator agreeing_inputs True)
       = Inr [''z'', ''z'']"
proof -
  note inst = fill_up_batches_neutral [of padding_translator "padding_chunk 0" "[padding_chunk 1]" 3
      "[padding_chunk 0, padding_chunk 1, padding_chunk 2]" "map padding_chunk [0, 1, 2, 3]"
      demo_decode agreeing_inputs]
  have np: "np_one_per_input padding_translator"
    unfolding padding_translator_def by (rule demo_one_per_input)
  have it: "np_itemwise padding_translator demo_decode"
    unfolding padding_translator_def by (rule demo_itemwise)
  have sl: "same_lexicon agreeing_inputs"
    by (simp add: same_lexicon_def agreeing_inputs_def plain_input_def)
  have lt: "length (padding_chunk 0 # [padding_chunk 1]) < 3" by simp
  have le: "3 \<le> length [padding_chunk 0, padding_chunk 1, padding_chunk 2]" by simp
  have nb: "0 + 1 < length (batches padding_translator True (map padding_chunk [0, 1, 2, 3]))"
    unfolding padding_batches by simp
  obtain ts where ts: "length ts = (3::nat)"
    "translate_batch padding_translator True 3 (padding_chunk 0 # [padding_chunk 1]) =
       Inr (map (\<lambda>(chunk, t). \<lparr> t_input_idx = input_idx chunk,
                                  t_chunk_idx = chunk_idx chunk, translation = t \<rparr>)
              (zip (padding_chunk 0 # [padding_chunk 1])
                 (take (length (padding_chunk 0 # [padding_chunk 1])) ts)))"
    using inst [THEN conjunct1, rule_format, OF conjI [OF np lt]] by blast
  have "length (padding_chunk 0 # [padding_chunk 1]) \<le> length ts" using ts(1) by simp
  then have m: "map t_input_idx
           (map (\<lambda>(chunk, t). \<lparr> t_input_idx = input_idx chunk,
                                  t_chunk_idx = chunk_idx chunk, translation = t \<rparr>)
              (zip (padding_chunk 0 # [padding_chunk 1])
                 (take (length (padding_chunk 0 # [padding_chunk 1])) ts)))
         = map input_idx (padding_chunk 0 # [padding_chunk 1])"
    by (rule map_input_idx_zip)
  have c1: "map t_input_idx
        (projr (translate_batch padding_translator True 3 (padding_chunk 0 # [padding_chunk 1])))
       = [0, 1]"
    unfolding ts(2) sum.sel m by (simp add: padding_chunk_def)
  note c2 = inst [THEN conjunct2, THEN conjunct1, rule_format, OF le]
  note c3 = inst [THEN conjunct2, THEN conjunct2, THEN conjunct1, rule_format, OF nb]
  note c4 = inst [THEN conjunct2, THEN conjunct2, THEN conjunct2, rule_format, OF conjI [OF it sl]]
  show ?thesis
    using np lt c1 le c2 nb c3 it sl c4 agreeing_translations by (simp only: simp_thms)
qed


end
